theory Spec2Isabelle
  imports Main
begin

section \<open>Cascading stream deletion (api-server, methods/streams.js)\<close>

text \<open>
  The development embeds the \<^verbatim>\<open>streams.delete\<close> API method of
  \<^verbatim>\<open>components/api-server/src/methods/streams.js\<close>: \<^verbatim>\<open>deleteStream\<close>,
  \<^verbatim>\<open>flagAsTrashed\<close>, \<^verbatim>\<open>deleteWithData\<close> with every step of its
  \<^verbatim>\<open>async.series\<close> pipelines, and \<^verbatim>\<open>arrayAIsIncludedInB\<close>.

  The user's collections are explicit state. Every storage call of the source has an error
  branch (\<^verbatim>\<open>if (err) return stepDone(errors.unexpectedError(err))\<close>); whether a call
  reports an error is an input of the model (\<open>storageFails\<close>, one flag per call site), and a
  failing call changes nothing. Streamed reads (\<^verbatim>\<open>findStreamed\<close> with its
  \<^verbatim>\<open>data\<close>/\<^verbatim>\<open>end\<close> handlers) are processed record by record, in order, before the
  step completes; a step fails as a whole, before it writes, so a write that fails for one
  record of a stream after others were written is not told apart. The tracking properties
  (\<^verbatim>\<open>context.updateTrackingProperties\<close>) and the fields of a stream that deletion never
  reads are left out.
\<close>

subsection \<open>Data model\<close>

text \<open>
  A stream document as the method reads it: \<^verbatim>\<open>id\<close>, \<^verbatim>\<open>parentId\<close> (null for a
  root), \<^verbatim>\<open>trashed\<close> (absent/null, true or false) and, in the materialised tree that
  \<^verbatim>\<open>userStreamsStorage.find\<close> returns, its \<^verbatim>\<open>children\<close>.
\<close>

datatype stream =
  Stream (stream_id: string) (parentId: "string option") (trashed: "bool option")
    (children: "stream list")

text \<open>
  An event document. \<open>headId\<close> is set on a history row (a stored former version of the
  event whose id it holds). \<open>content\<close> stands for the content fields of the event,
  \<open>modified\<close> and \<open>modifiedBy\<close> are its attribution fields.
\<close>

record event =
  event_id :: string
  streamIds :: "string list"
  headId :: "string option"
  attachments :: "string list option"
  content :: "string option"
  modified :: "nat option"
  modifiedBy :: "string option"

datatype notification = USERNAME_BASED_STREAMS_CHANGED | USERNAME_BASED_EVENTS_CHANGED

text \<open>
  The state the method works on: the stream tree, the events collection, the ids of the
  events that have attachment files stored, the error log (one entry, the event id, per
  logged attachment-removal error) and the notifications emitted on \<^verbatim>\<open>pubsub\<close>.
\<close>

record storage =
  streams :: "stream list"
  events :: "event list"
  eventFiles :: "string list"
  errorLog :: "string list"
  notifications :: "notification list"

text \<open>
  The errors the method hands to \<^verbatim>\<open>next\<close>, and \<open>UncaughtTypeError\<close>: a
  \<^verbatim>\<open>TypeError\<close> thrown inside a storage callback, after which \<^verbatim>\<open>next\<close> is never
  called and the request gets no result.
\<close>

datatype error =
  UnknownResource | Forbidden | InvalidOperation | InvalidParametersFormat | UnexpectedError
  | UncaughtTypeError

text \<open>The call sites of the storage layer, one per step of the method.\<close>

datatype storage_call =
  FlagAsTrashed
  | RetrieveStreamIdsToDelete
  | CheckIfRootStreamAndLinkedEventsExist
  | GenerateLogIfNecessary
  | AddParentStreamIdIfNeeded
  | RemoveStreamdIds
  | HandleHistory
  | DeleteEventsWithAttachments
  | RemoveStreamdIdsFromAllEvents
  | DeleteEvents
  | DeleteStreams

text \<open>
  \<^verbatim>\<open>auditSettings\<close> (\<open>forceKeepHistory\<close>, \<open>deletionMode\<close>) and the environment:
  which storage calls report an error, for which event ids
  \<^verbatim>\<open>userEventFilesStorage.removeAllForEvent\<close> reports an error, and the id the events
  storage gives to a document inserted without one (from the size of the collection).
\<close>

record settings =
  forceKeepHistory :: bool
  deletionMode :: string
  storageFails :: "storage_call \<Rightarrow> bool"
  removeAllForEventFails :: "string \<Rightarrow> bool"
  generateId :: "nat \<Rightarrow> string"

text \<open>
  \<^verbatim>\<open>params\<close>: the target id and \<^verbatim>\<open>mergeEventsWithParent\<close> (true, false or null,
  the default that \<^verbatim>\<open>verifyStreamExistenceAndPermissions\<close> fills in).
  \<^verbatim>\<open>context.stream\<close> is the stream that step has loaded.
\<close>

record params =
  params_id :: string
  mergeEventsWithParent :: "bool option"

record ctx =
  ctx_stream :: stream

datatype result = ResultStream "stream option" | ResultStreamDeletion string

subsection \<open>Helpers of the source file\<close>

text \<open>\<^verbatim>\<open>arrayAIsIncludedInB (a, b) = a.every(i => b.includes(i))\<close>\<close>

definition arrayAIsIncludedInB :: "string list \<Rightarrow> string list \<Rightarrow> bool" where
  "arrayAIsIncludedInB a b = list_all (\<lambda>i. i \<in> set b) a"

subsection \<open>Tree utilities\<close>

text \<open>
  Modelled from the spec: \<^verbatim>\<open>treeUtils.collectPluckFromRootItem\<close> (components/utils) is
  not among the sources. The closure of a stream is the stream itself, then its descendants,
  depth first, a parent before its children.
\<close>

fun collectPluckFromRootItem :: "stream \<Rightarrow> string list" where
  "collectPluckFromRootItem (Stream i p t cs) = i # concat (map collectPluckFromRootItem cs)"

text \<open>
  Modelled from the spec: \<^verbatim>\<open>treeUtils.findById\<close> (components/utils) is not among the
  sources. The stream of the given id is searched in the materialised tree, depth first.
\<close>

fun findById :: "stream list \<Rightarrow> string \<Rightarrow> stream option" where
  "findById [] i = None"
| "findById (Stream j p t cs # ss) i =
     (if j = i then Some (Stream j p t cs)
      else (case findById cs i of Some r \<Rightarrow> Some r | None \<Rightarrow> findById ss i))"

subsection \<open>Queries and updates of the events collection\<close>

text \<open>
  The filters and update documents are written in the source as MongoDB documents;
  each is a function here.

  \<^verbatim>\<open>{streamIds: {$in: ids}}\<close> on the array field matches an event one of whose
  \<open>streamIds\<close> is among \<open>ids\<close>.
\<close>

definition streamIdsIn :: "string list \<Rightarrow> event \<Rightarrow> bool" where
  "streamIdsIn ids e = list_ex (\<lambda>x. x \<in> set ids) (streamIds e)"

text \<open>
  \<^verbatim>\<open>{headId: {$exists: false}}\<close> matches the events for which this is false, the live
  events. (\<^verbatim>\<open>{streamIds: {$ne: parentId}}\<close>, an event none of whose \<open>streamIds\<close> is
  \<open>parentId\<close>, is written out where it is used.)
\<close>

definition headIdExists :: "event \<Rightarrow> bool" where
  "headIdExists e = (headId e \<noteq> None)"

text \<open>\<^verbatim>\<open>{$pull: {streamIds: {$in: ids}}}\<close> removes every member of \<open>ids\<close> from the array.\<close>

definition pullStreamIds :: "string list \<Rightarrow> event \<Rightarrow> event" where
  "pullStreamIds ids e = e\<lparr>streamIds := filter (\<lambda>x. x \<notin> set ids) (streamIds e)\<rparr>"

text \<open>
  \<^verbatim>\<open>{'streamIds.$': parentId}\<close> is a positional update: it overwrites the first array
  element that matched the query's condition on the array, here the first element that is
  among \<open>ids\<close> (the \<^verbatim>\<open>$in\<close> of the filter), and no other element; it inserts nothing.
\<close>

fun setPositional :: "string list \<Rightarrow> string \<Rightarrow> string list \<Rightarrow> string list" where
  "setPositional ids v [] = []"
| "setPositional ids v (x # xs) = (if x \<in> set ids then v # xs else x # setPositional ids v xs)"

text \<open>
  Modelled from the spec: \<^verbatim>\<open>userEventsStorage.find\<close> and
  \<^verbatim>\<open>userEventsStorage.findStreamed\<close> (components/storage) are not among the sources.
  They return the live events that match the query, in collection order.
\<close>

definition events_find :: "(event \<Rightarrow> bool) \<Rightarrow> event list \<Rightarrow> event list" where
  "events_find query evs = filter (\<lambda>e. headId e = None \<and> query e) evs"

text \<open>
  Modelled from the spec: \<^verbatim>\<open>userEventsStorage.updateMany\<close> (components/storage) is not
  among the sources. It applies the update to every document that matches the query.
\<close>

definition events_updateMany ::
  "(event \<Rightarrow> bool) \<Rightarrow> (event \<Rightarrow> event) \<Rightarrow> event list \<Rightarrow> event list" where
  "events_updateMany query update evs = map (\<lambda>e. if query e then update e else e) evs"

text \<open>
  Modelled from the spec: \<^verbatim>\<open>userEventsStorage.removeMany\<close> and
  \<^verbatim>\<open>userEventsStorage.delete\<close> (components/storage) are not among the sources. They
  remove the documents that match the query from the collection.
\<close>

definition events_removeMany :: "(event \<Rightarrow> bool) \<Rightarrow> event list \<Rightarrow> event list" where
  "events_removeMany query evs = filter (\<lambda>e. \<not> query e) evs"

text \<open>
  Modelled from the spec: what \<^verbatim>\<open>userEventsStorage.minimizeEventsHistory\<close>
  (components/storage, not among the sources) leaves of a history row: the attribution
  fields \<open>modified\<close> and \<open>modifiedBy\<close>, next to the row's own id and \<open>headId\<close>.
\<close>

definition minimizeEvent :: "event \<Rightarrow> event" where
  "minimizeEvent e = e\<lparr>streamIds := [], attachments := None, content := None\<rparr>"

text \<open>
  Modelled from the spec: \<^verbatim>\<open>userEventsStorage.minimizeEventsHistory\<close>
  (components/storage) is not among the sources. It minimizes every history row of the given
  head.
\<close>

definition events_minimizeEventsHistory :: "string \<Rightarrow> event list \<Rightarrow> event list" where
  "events_minimizeEventsHistory head evs =
     map (\<lambda>e. if headId e = Some head then minimizeEvent e else e) evs"

subsection \<open>Updates of the streams collection and of the attachment files\<close>

text \<open>
  Modelled from the spec: \<^verbatim>\<open>userStreamsStorage.updateOne\<close> (components/storage) is not
  among the sources. With \<^verbatim>\<open>{trashed: true}\<close> it sets the flag on the stream of the given
  id (ids are unique in the collection).
\<close>

fun setTrashed :: "string \<Rightarrow> stream \<Rightarrow> stream" where
  "setTrashed i (Stream j p t cs) =
     Stream j p (if j = i then Some True else t) (map (setTrashed i) cs)"

text \<open>
  Modelled from the spec: \<^verbatim>\<open>userStreamsStorage.delete\<close> (components/storage) is not among
  the sources. With \<^verbatim>\<open>{id: {$in: ids}}\<close> it removes the stream documents whose id is
  among \<open>ids\<close>; \<open>pruneStream\<close> removes them below a stream that stays.
\<close>

fun pruneStream :: "string list \<Rightarrow> stream \<Rightarrow> stream" where
  "pruneStream ids (Stream j p t cs) =
     Stream j p t (map (pruneStream ids) (filter (\<lambda>c. stream_id c \<notin> set ids) cs))"

text \<open>
  Modelled from the spec: \<^verbatim>\<open>userStreamsStorage.delete\<close> (components/storage) is not among
  the sources. The tree after the stream documents whose id is among \<open>ids\<close> are removed.
\<close>

definition streams_delete :: "string list \<Rightarrow> stream list \<Rightarrow> stream list" where
  "streams_delete ids ss = map (pruneStream ids) (filter (\<lambda>s. stream_id s \<notin> set ids) ss)"

text \<open>
  Modelled from the spec: \<^verbatim>\<open>userEventFilesStorage.removeAllForEvent\<close>
  (components/storage) is not among the sources. It removes the files stored for the event,
  or reports an error; the callback given in \<open>deleteEventsWithAttachments\<close> does nothing
  but log the error (\<^verbatim>\<open>errorHandling.logError\<close>), which is the first branch here.
\<close>

definition removeAllForEvent :: "settings \<Rightarrow> storage \<Rightarrow> string \<Rightarrow> storage" where
  "removeAllForEvent cfg st i =
     (if removeAllForEventFails cfg i then st\<lparr>errorLog := errorLog st @ [i]\<rparr>
      else st\<lparr>eventFiles := removeAll i (eventFiles st)\<rparr>)"

subsection \<open>Soft deletion\<close>

definition flagAsTrashed :: "settings \<Rightarrow> params \<Rightarrow> storage \<Rightarrow> (error + result) \<times> storage" where
  "flagAsTrashed cfg p st =
     (if storageFails cfg FlagAsTrashed then (Inl UnexpectedError, st)
      else
        (let updated = map (setTrashed (params_id p)) (streams st) in
         (Inr (ResultStream (findById updated (params_id p))),
          st\<lparr>streams := updated,
             notifications := notifications st @ [USERNAME_BASED_STREAMS_CHANGED]\<rparr>)))"

subsection \<open>Hard deletion: the steps of \<^verbatim>\<open>deleteWithData\<close>\<close>

text \<open>
  \<^verbatim>\<open>async.series\<close>: the steps run in order on the state; the first error ends the
  series, and what the earlier steps wrote stays.
\<close>

fun series :: "(storage \<Rightarrow> error + storage) list \<Rightarrow> storage \<Rightarrow> error option \<times> storage" where
  "series [] st = (None, st)"
| "series (step # steps) st =
     (case step st of
        Inl err \<Rightarrow> (Some err, st)
      | Inr st' \<Rightarrow> series steps st')"

text \<open>
  \<open>retrieveStreamIdsToDelete\<close> yields \<^verbatim>\<open>streamAndDescendantIds\<close> and
  \<^verbatim>\<open>parentId\<close>. The source does not check that the stream is found
  (\<^verbatim>\<open>//no need to check existence: done before already\<close>): when the id is no longer in
  the tree, \<^verbatim>\<open>streamToDelete\<close> is null, reading from it throws a \<^verbatim>\<open>TypeError\<close>
  inside the callback, and nothing has been written.
\<close>

definition retrieveStreamIdsToDelete ::
  "settings \<Rightarrow> params \<Rightarrow> storage \<Rightarrow> error + (string list \<times> string option)" where
  "retrieveStreamIdsToDelete cfg p st =
     (if storageFails cfg RetrieveStreamIdsToDelete then Inl UnexpectedError
      else
        (case findById (streams st) (params_id p) of
           None \<Rightarrow> Inl UncaughtTypeError
         | Some streamToDelete \<Rightarrow>
             Inr (collectPluckFromRootItem streamToDelete, parentId streamToDelete)))"

text \<open>
  \<open>checkIfRootStreamAndLinkedEventsExist\<close> yields \<^verbatim>\<open>hasLinkedEvents\<close>. The error of
  the second check is \<^verbatim>\<open>errors.invalidParametersFormat\<close> (the spec's MissingDisposition).
\<close>

definition checkIfRootStreamAndLinkedEventsExist ::
  "settings \<Rightarrow> params \<Rightarrow> string list \<Rightarrow> string option \<Rightarrow> storage \<Rightarrow> error + bool" where
  "checkIfRootStreamAndLinkedEventsExist cfg p ids pid st =
     (if mergeEventsWithParent p = Some True \<and> pid = None then Inl InvalidOperation
      else if storageFails cfg CheckIfRootStreamAndLinkedEventsExist then Inl UnexpectedError
      else
        (let found = take 1 (events_find (streamIdsIn ids) (events st));
             hasLinkedEvents = (found \<noteq> [])
         in if hasLinkedEvents \<and> mergeEventsWithParent p = None
            then Inl InvalidParametersFormat
            else Inr hasLinkedEvents))"

text \<open>The merge path (\<^verbatim>\<open>mergeEventsWithParent\<close> true).\<close>

definition eventToVersion :: "settings \<Rightarrow> storage \<Rightarrow> event \<Rightarrow> event" where
  "eventToVersion cfg st e =
     e\<lparr>headId := Some (event_id e), event_id := generateId cfg (length (events st))\<rparr>"

definition generateLogIfNecessary :: "settings \<Rightarrow> string list \<Rightarrow> storage \<Rightarrow> error + storage" where
  "generateLogIfNecessary cfg ids st =
     (if \<not> forceKeepHistory cfg then Inr st
      else if storageFails cfg GenerateLogIfNecessary then Inl UnexpectedError
      else
        Inr (foldl (\<lambda>s e. s\<lparr>events := events s @ [eventToVersion cfg s e]\<rparr>) st
               (events_find (streamIdsIn ids) (events st))))"

definition addParentStreamIdIfNeeded ::
  "settings \<Rightarrow> string list \<Rightarrow> string \<Rightarrow> storage \<Rightarrow> error + storage" where
  "addParentStreamIdIfNeeded cfg ids parent st =
     (if storageFails cfg AddParentStreamIdIfNeeded then Inl UnexpectedError
      else
        Inr (st\<lparr>events :=
                  events_updateMany
                    (\<lambda>e. parent \<notin> set (streamIds e) \<and> streamIdsIn ids e \<and> \<not> headIdExists e)
                    (\<lambda>e. e\<lparr>streamIds := setPositional ids parent (streamIds e)\<rparr>)
                    (events st),
                notifications := notifications st @ [USERNAME_BASED_EVENTS_CHANGED]\<rparr>))"

definition removeStreamdIds :: "settings \<Rightarrow> string list \<Rightarrow> storage \<Rightarrow> error + storage" where
  "removeStreamdIds cfg ids st =
     (if storageFails cfg RemoveStreamdIds then Inl UnexpectedError
      else
        Inr (st\<lparr>events :=
                  events_updateMany (\<lambda>e. streamIdsIn ids e \<and> \<not> headIdExists e)
                    (pullStreamIds ids) (events st)\<rparr>))"

text \<open>
  The detach path (\<^verbatim>\<open>mergeEventsWithParent\<close> false). Both streamed steps make the
  same test on a record, \<^verbatim>\<open>streamIds.length > 1 && ! arrayAIsIncludedInB(streamIds,
  streamAndDescendantIds)\<close>: the event is still attached to a stream that stays.
\<close>

definition stillAttached :: "string list \<Rightarrow> event \<Rightarrow> bool" where
  "stillAttached ids e =
     (length (streamIds e) > 1 \<and> \<not> arrayAIsIncludedInB (streamIds e) ids)"

definition handleHistory :: "settings \<Rightarrow> string list \<Rightarrow> storage \<Rightarrow> error + storage" where
  "handleHistory cfg ids st =
     (if deletionMode cfg = ''keep-everything'' then Inr st
      else if deletionMode cfg = ''keep-authors'' then
        (if storageFails cfg HandleHistory then Inl UnexpectedError
         else
           Inr (st\<lparr>events :=
                     foldl (\<lambda>evs head. events_minimizeEventsHistory (event_id head) evs)
                       (events st) (events_find (streamIdsIn ids) (events st))\<rparr>))
      else
        (if storageFails cfg HandleHistory then Inl UnexpectedError
         else
           Inr (st\<lparr>events :=
                     foldl (\<lambda>evs head.
                              if stillAttached ids head then evs
                              else events_removeMany (\<lambda>e. headId e = Some (event_id head)) evs)
                       (events st) (events_find (streamIdsIn ids) (events st))\<rparr>)))"

definition deleteEventsWithAttachments ::
  "settings \<Rightarrow> string list \<Rightarrow> storage \<Rightarrow> error + storage" where
  "deleteEventsWithAttachments cfg ids st =
     (if storageFails cfg DeleteEventsWithAttachments then Inl UnexpectedError
      else
        Inr (foldl (\<lambda>s e. if stillAttached ids e then s
                           else removeAllForEvent cfg s (event_id e))
               st
               (events_find (\<lambda>e. streamIdsIn ids e \<and> attachments e \<noteq> None) (events st))))"

definition removeStreamdIdsFromAllEvents ::
  "settings \<Rightarrow> string list \<Rightarrow> storage \<Rightarrow> error + storage" where
  "removeStreamdIdsFromAllEvents cfg ids st =
     (if deletionMode cfg = ''keep-everything'' then Inr st
      else if storageFails cfg RemoveStreamdIdsFromAllEvents then Inl UnexpectedError
      else
        Inr (st\<lparr>events :=
                  events_updateMany (\<lambda>e. streamIdsIn ids e \<and> \<not> headIdExists e)
                    (pullStreamIds ids) (events st)\<rparr>))"

definition deleteEventsFilter :: "settings \<Rightarrow> string list \<Rightarrow> event \<Rightarrow> bool" where
  "deleteEventsFilter cfg ids e =
     (if deletionMode cfg = ''keep-everything''
      then \<not> headIdExists e \<and> streamIdsIn ids e
      else \<not> headIdExists e \<and> streamIds e = [])"

definition deleteEvents :: "settings \<Rightarrow> string list \<Rightarrow> storage \<Rightarrow> error + storage" where
  "deleteEvents cfg ids st =
     (if storageFails cfg DeleteEvents then Inl UnexpectedError
      else
        Inr (st\<lparr>events := events_removeMany (deleteEventsFilter cfg ids) (events st),
                notifications := notifications st @ [USERNAME_BASED_EVENTS_CHANGED]\<rparr>))"

text \<open>
  \<open>handleLinkedEvents\<close>. On the merge path \<^verbatim>\<open>parentId\<close> is not null:
  \<open>checkIfRootStreamAndLinkedEventsExist\<close> has rejected the request otherwise, with the
  error repeated here for the case that cannot be reached.
\<close>

definition handleLinkedEvents ::
  "settings \<Rightarrow> params \<Rightarrow> string list \<Rightarrow> string option \<Rightarrow> bool \<Rightarrow> storage
    \<Rightarrow> error option \<times> storage" where
  "handleLinkedEvents cfg p ids pid hasLinkedEvents st =
     (if \<not> hasLinkedEvents then (None, st)
      else if mergeEventsWithParent p = Some True then
        (case pid of
           None \<Rightarrow> (Some InvalidOperation, st)
         | Some parent \<Rightarrow>
             series [generateLogIfNecessary cfg ids,
                     addParentStreamIdIfNeeded cfg ids parent,
                     removeStreamdIds cfg ids] st)
      else
        series [handleHistory cfg ids,
                deleteEventsWithAttachments cfg ids,
                removeStreamdIdsFromAllEvents cfg ids,
                deleteEvents cfg ids] st)"

definition deleteStreams ::
  "settings \<Rightarrow> params \<Rightarrow> string list \<Rightarrow> storage \<Rightarrow> (error + result) \<times> storage" where
  "deleteStreams cfg p ids st =
     (if storageFails cfg DeleteStreams then (Inl UnexpectedError, st)
      else
        (Inr (ResultStreamDeletion (params_id p)),
         st\<lparr>streams := streams_delete ids (streams st),
            notifications := notifications st @ [USERNAME_BASED_STREAMS_CHANGED]\<rparr>))"

definition deleteWithData :: "settings \<Rightarrow> params \<Rightarrow> storage \<Rightarrow> (error + result) \<times> storage" where
  "deleteWithData cfg p st =
     (case retrieveStreamIdsToDelete cfg p st of
        Inl err \<Rightarrow> (Inl err, st)
      | Inr (ids, pid) \<Rightarrow>
          (case checkIfRootStreamAndLinkedEventsExist cfg p ids pid st of
             Inl err \<Rightarrow> (Inl err, st)
           | Inr hasLinkedEvents \<Rightarrow>
               (case handleLinkedEvents cfg p ids pid hasLinkedEvents st of
                  (Some err, st') \<Rightarrow> (Inl err, st')
                | (None, st') \<Rightarrow> deleteStreams cfg p ids st')))"

subsection \<open>The method\<close>

definition deleteStream :: "settings \<Rightarrow> ctx \<Rightarrow> params \<Rightarrow> storage \<Rightarrow> (error + result) \<times> storage" where
  "deleteStream cfg c p st =
     (if trashed (ctx_stream c) = None then flagAsTrashed cfg p st
      else deleteWithData cfg p st)"

subsection \<open>Example data\<close>

text \<open>
  The trees and events of the scenarios: the root stream \<open>work\<close> with its child
  \<open>work/sub\<close>, and the tree \<open>A\<close> with its child \<open>A/B\<close>. Settings built by
  \<open>mkSettings\<close> have no failing call.
\<close>

definition mkEvent :: "string \<Rightarrow> string list \<Rightarrow> string option \<Rightarrow> string list option \<Rightarrow> event" where
  "mkEvent i sids h att =
     \<lparr>event_id = i, streamIds = sids, headId = h, attachments = att,
      content = Some ''data'', modified = Some 1, modifiedBy = Some ''author''\<rparr>"

definition mkSettings :: "bool \<Rightarrow> string \<Rightarrow> settings" where
  "mkSettings keep mode =
     \<lparr>forceKeepHistory = keep, deletionMode = mode, storageFails = (\<lambda>_. False),
      removeAllForEventFails = (\<lambda>_. False), generateId = (\<lambda>n. ''generated'')\<rparr>"

definition mkStorage :: "stream list \<Rightarrow> event list \<Rightarrow> storage" where
  "mkStorage ss evs = \<lparr>streams = ss, events = evs, eventFiles = [], errorLog = [], notifications = []\<rparr>"

definition streamAB :: "bool \<Rightarrow> stream" where
  "streamAB b = Stream ''A/B'' (Some ''A'') (Some b) []"

definition treeAB :: "bool \<Rightarrow> stream list" where
  "treeAB b = [Stream ''A'' None None [streamAB b]]"

definition streamWork :: stream where
  "streamWork = Stream ''work'' None (Some True) [Stream ''work/sub'' (Some ''work'') None []]"

subsection \<open>States that differ in the attachment files only\<close>

text \<open>
  Two states have the same collections when they agree on the stream tree, the events and
  the notifications, whatever attachment files and error log they hold.
\<close>

definition sameCollections :: "storage \<Rightarrow> storage \<Rightarrow> bool" where
  "sameCollections a b =
     (streams a = streams b \<and> events a = events b \<and> notifications a = notifications b)"

section \<open>Properties\<close>

lemmas step_defs = deleteWithData_def retrieveStreamIdsToDelete_def
  checkIfRootStreamAndLinkedEventsExist_def handleLinkedEvents_def handleHistory_def
  deleteEventsWithAttachments_def removeStreamdIdsFromAllEvents_def deleteEvents_def
  deleteEventsFilter_def deleteStreams_def generateLogIfNecessary_def addParentStreamIdIfNeeded_def
  removeStreamdIds_def flagAsTrashed_def events_find_def events_updateMany_def events_removeMany_def
  events_minimizeEventsHistory_def minimizeEvent_def streams_delete_def removeAllForEvent_def
  streamIdsIn_def headIdExists_def pullStreamIds_def stillAttached_def arrayAIsIncludedInB_def
  eventToVersion_def

lemmas example_defs = mkEvent_def mkSettings_def mkStorage_def streamAB_def treeAB_def streamWork_def

subsection \<open>Validation of a hard delete\<close>

lemma linked_find_nonempty:
  assumes "e \<in> set evs" "headId e = None" "x \<in> set (streamIds e)" "x \<in> set ids"
  shows "events_find (streamIdsIn ids) evs \<noteq> []"
proof -
  have "streamIdsIn ids e" using assms(3,4) by (auto simp: streamIdsIn_def list_ex_iff)
  then have "e \<in> set (events_find (streamIdsIn ids) evs)"
    using assms(1,2) by (simp add: events_find_def)
  then show ?thesis by auto
qed

text \<open>
  C3. A hard-delete request (the stream's \<open>trashed\<close> is set) for a stream of the tree,
  with \<^verbatim>\<open>mergeEventsWithParent\<close> null, while a live event has a stream of the closure
  among its \<open>streamIds\<close>: the state is returned unchanged (streams, events, files, log and
  notifications), and the error is \<open>InvalidParametersFormat\<close> (the spec's
  MissingDisposition) whenever the two reads that precede the check succeed; if one of them
  fails the error is \<open>UnexpectedError\<close>, still with nothing changed.
\<close>

theorem missing_disposition_guard:
  assumes "trashed (ctx_stream c) \<noteq> None"
    and "findById (streams st) (params_id p) = Some s"
    and "mergeEventsWithParent p = None"
    and "e \<in> set (events st)" and "headId e = None"
    and "x \<in> set (streamIds e)" and "x \<in> set (collectPluckFromRootItem s)"
  shows "snd (deleteStream cfg c p st) = st \<and>
         fst (deleteStream cfg c p st) =
           (if storageFails cfg RetrieveStreamIdsToDelete
               \<or> storageFails cfg CheckIfRootStreamAndLinkedEventsExist
            then Inl UnexpectedError else Inl InvalidParametersFormat)"
proof -
  have ne: "events_find (streamIdsIn (collectPluckFromRootItem s)) (events st) \<noteq> []"
    using linked_find_nonempty[OF assms(4-7)] .
  have hard: "deleteStream cfg c p st = deleteWithData cfg p st"
    using assms(1) by (auto simp: deleteStream_def)
  show ?thesis
    unfolding hard deleteWithData_def retrieveStreamIdsToDelete_def
      checkIfRootStreamAndLinkedEventsExist_def
    using assms(2,3) ne by (simp add: take_Suc_conv_app_nth)
qed

theorem missing_disposition_guard_witness:
  "trashed (ctx_stream \<lparr>ctx_stream = streamWork\<rparr>) \<noteq> None \<and>
   mkEvent ''e1'' [''work''] None None
     \<in> set (events (mkStorage [streamWork] [mkEvent ''e1'' [''work''] None None])) \<and>
   ''work'' \<in> set (collectPluckFromRootItem streamWork) \<and>
   deleteStream (mkSettings False ''keep-nothing'') \<lparr>ctx_stream = streamWork\<rparr>
     \<lparr>params_id = ''work'', mergeEventsWithParent = None\<rparr>
     (mkStorage [streamWork] [mkEvent ''e1'' [''work''] None None])
   = (Inl InvalidParametersFormat, mkStorage [streamWork] [mkEvent ''e1'' [''work''] None None])"
proof -
  let ?c = "\<lparr>ctx_stream = streamWork\<rparr>"
  let ?p = "\<lparr>params_id = ''work'', mergeEventsWithParent = None\<rparr>"
  let ?e = "mkEvent ''e1'' [''work''] None None"
  let ?st = "mkStorage [streamWork] [?e]"
  let ?cfg = "mkSettings False ''keep-nothing''"
  have h1: "trashed (ctx_stream ?c) \<noteq> None" by (simp add: example_defs)
  have h2: "findById (streams ?st) (params_id ?p) = Some streamWork" by (simp add: example_defs)
  have h3: "mergeEventsWithParent ?p = None" by simp
  have h4: "?e \<in> set (events ?st)" by (simp add: example_defs)
  have h5: "headId ?e = None" by (simp add: example_defs)
  have h6: "''work'' \<in> set (streamIds ?e)" by (simp add: example_defs)
  have h7: "''work'' \<in> set (collectPluckFromRootItem streamWork)" by (simp add: example_defs)
  have "snd (deleteStream ?cfg ?c ?p ?st) = ?st \<and>
        fst (deleteStream ?cfg ?c ?p ?st) = Inl InvalidParametersFormat"
    using missing_disposition_guard[OF h1 h2 h3 h4 h5 h6 h7, of ?cfg]
    by (simp add: mkSettings_def)
  then have "deleteStream ?cfg ?c ?p ?st = (Inl InvalidParametersFormat, ?st)"
    by (simp add: prod_eq_iff)
  then show ?thesis using h1 h4 h7 by blast
qed

text \<open>
  C4. A hard-delete request with \<^verbatim>\<open>mergeEventsWithParent\<close> true for a stream whose
  \<open>parentId\<close> is null: the state is returned unchanged and the error is
  \<open>InvalidOperation\<close> (\<open>UnexpectedError\<close> only if reading the streams failed);
  whether events are linked is not even looked up.
\<close>

theorem root_merge_rejected:
  assumes "trashed (ctx_stream c) \<noteq> None"
    and "findById (streams st) (params_id p) = Some s"
    and "parentId s = None"
    and "mergeEventsWithParent p = Some True"
  shows "snd (deleteStream cfg c p st) = st \<and>
         fst (deleteStream cfg c p st) =
           (if storageFails cfg RetrieveStreamIdsToDelete
            then Inl UnexpectedError else Inl InvalidOperation)"
proof -
  have hard: "deleteStream cfg c p st = deleteWithData cfg p st"
    using assms(1) by (auto simp: deleteStream_def)
  show ?thesis
    unfolding hard deleteWithData_def retrieveStreamIdsToDelete_def
      checkIfRootStreamAndLinkedEventsExist_def
    using assms(2-4) by simp
qed

theorem root_merge_rejected_witness:
  "parentId streamWork = None \<and>
   deleteStream (mkSettings True ''keep-authors'') \<lparr>ctx_stream = streamWork\<rparr>
     \<lparr>params_id = ''work'', mergeEventsWithParent = Some True\<rparr>
     (mkStorage [streamWork] [mkEvent ''e1'' [''work''] None None])
   = (Inl InvalidOperation, mkStorage [streamWork] [mkEvent ''e1'' [''work''] None None])"
proof -
  let ?c = "\<lparr>ctx_stream = streamWork\<rparr>"
  let ?p = "\<lparr>params_id = ''work'', mergeEventsWithParent = Some True\<rparr>"
  let ?st = "mkStorage [streamWork] [mkEvent ''e1'' [''work''] None None]"
  let ?cfg = "mkSettings True ''keep-authors''"
  have h1: "trashed (ctx_stream ?c) \<noteq> None" by (simp add: example_defs)
  have h2: "findById (streams ?st) (params_id ?p) = Some streamWork" by (simp add: example_defs)
  have h3: "parentId streamWork = None" by (simp add: example_defs)
  have h4: "mergeEventsWithParent ?p = Some True" by simp
  have "snd (deleteStream ?cfg ?c ?p ?st) = ?st \<and>
        fst (deleteStream ?cfg ?c ?p ?st) = Inl InvalidOperation"
    using root_merge_rejected[OF h1 h2 h3 h4, of ?cfg] by (simp add: mkSettings_def)
  then have "deleteStream ?cfg ?c ?p ?st = (Inl InvalidOperation, ?st)"
    by (simp add: prod_eq_iff)
  then show ?thesis using h3 by blast
qed

subsection \<open>The trash gate\<close>

lemma deleteWithData_result:
  "fst (deleteWithData cfg p st) \<noteq> Inr (ResultStream u)"
  by (simp add: deleteWithData_def deleteStreams_def split: sum.splits prod.splits option.splits)

text \<open>
  C10. The hard-delete branch is taken whenever \<open>trashed\<close> is not null, be it true or
  false: the method then is \<open>deleteWithData\<close>, and its result is never the soft delete's
  \<open>ResultStream\<close> payload. The witness deletes a stream whose \<open>trashed\<close> is false:
  the stream and its only event are gone after one call.
\<close>

theorem non_null_trashed_is_hard_delete:
  assumes "trashed (ctx_stream c) = Some b"
  shows "deleteStream cfg c p st = deleteWithData cfg p st \<and>
         fst (deleteStream cfg c p st) \<noteq> Inr (ResultStream u)"
  using assms deleteWithData_result by (simp add: deleteStream_def)

theorem non_null_trashed_is_hard_delete_witness:
  "trashed (ctx_stream \<lparr>ctx_stream = streamAB False\<rparr>) = Some False \<and>
   deleteStream (mkSettings False ''keep-nothing'') \<lparr>ctx_stream = streamAB False\<rparr>
     \<lparr>params_id = ''A/B'', mergeEventsWithParent = Some False\<rparr>
     (mkStorage (treeAB False) [mkEvent ''e3'' [''A/B''] None None])
   = (Inr (ResultStreamDeletion ''A/B''),
      \<lparr>streams = [Stream ''A'' None None []], events = [], eventFiles = [], errorLog = [],
       notifications = [USERNAME_BASED_EVENTS_CHANGED, USERNAME_BASED_STREAMS_CHANGED]\<rparr>)"
proof -
  let ?c = "\<lparr>ctx_stream = streamAB False\<rparr>"
  let ?p = "\<lparr>params_id = ''A/B'', mergeEventsWithParent = Some False\<rparr>"
  let ?st = "mkStorage (treeAB False) [mkEvent ''e3'' [''A/B''] None None]"
  let ?cfg = "mkSettings False ''keep-nothing''"
  have h1: "trashed (ctx_stream ?c) = Some False" by (simp add: example_defs)
  have "deleteStream ?cfg ?c ?p ?st = deleteWithData ?cfg ?p ?st"
    using non_null_trashed_is_hard_delete[OF h1] by blast
  also have "\<dots> = (Inr (ResultStreamDeletion ''A/B''),
      \<lparr>streams = [Stream ''A'' None None []], events = [], eventFiles = [], errorLog = [],
       notifications = [USERNAME_BASED_EVENTS_CHANGED, USERNAME_BASED_STREAMS_CHANGED]\<rparr>)"
    by (simp add: step_defs example_defs)
  finally show ?thesis using h1 by blast
qed

subsection \<open>History rows and the bulk updates of memberships\<close>

lemma foldl_append_events:
  "\<exists>new. events (foldl (\<lambda>s e. s\<lparr>events := events s @ [f s e]\<rparr>) st xs) = events st @ new"
proof (induction xs arbitrary: st)
  case Nil
  show ?case by simp
next
  case (Cons x xs)
  obtain new where
    "events (foldl (\<lambda>s e. s\<lparr>events := events s @ [f s e]\<rparr>) (st\<lparr>events := events st @ [f st x]\<rparr>) xs)
       = events (st\<lparr>events := events st @ [f st x]\<rparr>) @ new"
    using Cons.IH by blast
  then show ?case by simp
qed

lemma updateMany_live_only:
  assumes "\<And>e. q e \<Longrightarrow> headId e = None"
    and "i < length evs" and "headId (evs ! i) \<noteq> None"
  shows "events_updateMany q u evs ! i = evs ! i"
  using assms by (auto simp: events_updateMany_def)

text \<open>
  C8. A history row (an event document with \<open>headId\<close> set) is left as it is, at its
  place in the collection, by each membership update: \<open>addParentStreamIdIfNeeded\<close> and
  \<open>removeStreamdIds\<close> of the merge path, \<open>removeStreamdIdsFromAllEvents\<close> of the
  detach path. \<open>generateLogIfNecessary\<close> only appends documents, so it leaves the row
  as it is too, and the bulk delete of \<open>deleteEvents\<close>, whose filter has the same
  discriminator, keeps every history row.
\<close>

theorem history_rows_never_updated:
  assumes "i < length (events st)" and "headId (events st ! i) \<noteq> None"
  shows "(\<forall>st'. addParentStreamIdIfNeeded cfg ids parent st = Inr st' \<longrightarrow>
            length (events st') = length (events st) \<and> events st' ! i = events st ! i) \<and>
         (\<forall>st'. removeStreamdIds cfg ids st = Inr st' \<longrightarrow>
            length (events st') = length (events st) \<and> events st' ! i = events st ! i) \<and>
         (\<forall>st'. removeStreamdIdsFromAllEvents cfg ids st = Inr st' \<longrightarrow>
            length (events st') = length (events st) \<and> events st' ! i = events st ! i) \<and>
         (\<forall>st'. generateLogIfNecessary cfg ids st = Inr st' \<longrightarrow>
            length (events st) \<le> length (events st') \<and> events st' ! i = events st ! i) \<and>
         (\<forall>st'. deleteEvents cfg ids st = Inr st' \<longrightarrow>
            filter headIdExists (events st') = filter headIdExists (events st))"
proof -
  have a: "events_updateMany
             (\<lambda>e. parent \<notin> set (streamIds e) \<and> streamIdsIn ids e \<and> \<not> headIdExists e)
             u (events st) ! i = events st ! i" for u
    using assms by (intro updateMany_live_only) (auto simp: headIdExists_def)
  have b: "events_updateMany (\<lambda>e. streamIdsIn ids e \<and> \<not> headIdExists e) u (events st) ! i
             = events st ! i" for u
    using assms by (intro updateMany_live_only) (auto simp: headIdExists_def)
  have len: "length (events_updateMany q u (events st)) = length (events st)" for q u
    by (simp add: events_updateMany_def)
  have c1: "\<forall>st'. addParentStreamIdIfNeeded cfg ids parent st = Inr st' \<longrightarrow>
            length (events st') = length (events st) \<and> events st' ! i = events st ! i"
    using a len by (auto simp: addParentStreamIdIfNeeded_def split: if_splits)
  have c2: "\<forall>st'. removeStreamdIds cfg ids st = Inr st' \<longrightarrow>
            length (events st') = length (events st) \<and> events st' ! i = events st ! i"
    using b len by (auto simp: removeStreamdIds_def split: if_splits)
  have c3: "\<forall>st'. removeStreamdIdsFromAllEvents cfg ids st = Inr st' \<longrightarrow>
            length (events st') = length (events st) \<and> events st' ! i = events st ! i"
    using b len by (auto simp: removeStreamdIdsFromAllEvents_def split: if_splits)
  have c4: "\<forall>st'. generateLogIfNecessary cfg ids st = Inr st' \<longrightarrow>
            length (events st) \<le> length (events st') \<and> events st' ! i = events st ! i"
  proof (intro allI impI)
    fix st' assume g: "generateLogIfNecessary cfg ids st = Inr st'"
    obtain new where "events st' = events st @ new"
      using g foldl_append_events[of "eventToVersion cfg" st]
      by (auto simp: generateLogIfNecessary_def split: if_splits)
    then show "length (events st) \<le> length (events st') \<and> events st' ! i = events st ! i"
      using assms(1) by (simp add: nth_append)
  qed
  have c5: "\<forall>st'. deleteEvents cfg ids st = Inr st' \<longrightarrow>
            filter headIdExists (events st') = filter headIdExists (events st)"
  proof (intro allI impI)
    fix st' assume d: "deleteEvents cfg ids st = Inr st'"
    have "events st' = filter (\<lambda>e. \<not> deleteEventsFilter cfg ids e) (events st)"
      using d by (auto simp: deleteEvents_def events_removeMany_def split: if_splits)
    moreover have "headIdExists e \<Longrightarrow> \<not> deleteEventsFilter cfg ids e" for e
      by (simp add: deleteEventsFilter_def)
    ultimately show "filter headIdExists (events st') = filter headIdExists (events st)"
      by (auto intro: filter_cong)
  qed
  show ?thesis using c1 c2 c3 c4 c5 by blast
qed

theorem history_rows_never_updated_witness:
  "headId (events (mkStorage (treeAB True)
       [mkEvent ''e2'' [''A/B''] None None, mkEvent ''h1'' [''A/B''] (Some ''e2'') None]) ! 1)
     \<noteq> None \<and>
   addParentStreamIdIfNeeded (mkSettings False ''keep-nothing'') [''A/B''] ''A''
     (mkStorage (treeAB True)
       [mkEvent ''e2'' [''A/B''] None None, mkEvent ''h1'' [''A/B''] (Some ''e2'') None])
   = Inr \<lparr>streams = treeAB True,
          events = [mkEvent ''e2'' [''A''] None None, mkEvent ''h1'' [''A/B''] (Some ''e2'') None],
          eventFiles = [], errorLog = [], notifications = [USERNAME_BASED_EVENTS_CHANGED]\<rparr> \<and>
   events \<lparr>streams = treeAB True,
          events = [mkEvent ''e2'' [''A''] None None, mkEvent ''h1'' [''A/B''] (Some ''e2'') None],
          eventFiles = [], errorLog = [], notifications = [USERNAME_BASED_EVENTS_CHANGED]\<rparr> ! 1
   = mkEvent ''h1'' [''A/B''] (Some ''e2'') None"
proof -
  let ?st = "mkStorage (treeAB True)
       [mkEvent ''e2'' [''A/B''] None None, mkEvent ''h1'' [''A/B''] (Some ''e2'') None]"
  let ?st' = "\<lparr>streams = treeAB True,
          events = [mkEvent ''e2'' [''A''] None None, mkEvent ''h1'' [''A/B''] (Some ''e2'') None],
          eventFiles = [], errorLog = [], notifications = [USERNAME_BASED_EVENTS_CHANGED]\<rparr>"
  let ?cfg = "mkSettings False ''keep-nothing''"
  have h1: "1 < length (events ?st)" by (simp add: example_defs)
  have h2: "headId (events ?st ! 1) \<noteq> None" by (simp add: example_defs)
  have run: "addParentStreamIdIfNeeded ?cfg [''A/B''] ''A'' ?st = Inr ?st'"
    by (simp add: step_defs example_defs)
  have "events ?st' ! 1 = events ?st ! 1"
    using history_rows_never_updated[OF h1 h2, of ?cfg "[''A/B'']" "''A''"] run by blast
  then have "events ?st' ! 1 = mkEvent ''h1'' [''A/B''] (Some ''e2'') None"
    by (simp add: example_defs)
  then show ?thesis using h2 run by blast
qed

subsection \<open>Detaching under keep-everything\<close>

text \<open>
  C1. Under \<open>keep-everything\<close> the filter of \<open>deleteEvents\<close> is
  \<^verbatim>\<open>{streamIds: {$in: streamAndDescendantIds}}\<close>, which matches an event as soon as one
  of its \<open>streamIds\<close> is in the closure. Deleting \<open>A/B\<close> with
  \<^verbatim>\<open>mergeEventsWithParent\<close> false removes the live event whose \<open>streamIds\<close> are
  \<open>A/B\<close> and \<open>A\<close>, although \<open>A\<close> is outside the closure.
\<close>

theorem keep_everything_deletes_partially_linked_event:
  "''A'' \<in> set (streamIds (mkEvent ''e1'' [''A/B'', ''A''] None None)) \<and>
   ''A'' \<notin> set (collectPluckFromRootItem (streamAB True)) \<and>
   deleteStream (mkSettings False ''keep-everything'') \<lparr>ctx_stream = streamAB True\<rparr>
     \<lparr>params_id = ''A/B'', mergeEventsWithParent = Some False\<rparr>
     (mkStorage (treeAB True) [mkEvent ''e1'' [''A/B'', ''A''] None None])
   = (Inr (ResultStreamDeletion ''A/B''),
      \<lparr>streams = [Stream ''A'' None None []], events = [], eventFiles = [], errorLog = [],
       notifications = [USERNAME_BASED_EVENTS_CHANGED, USERNAME_BASED_STREAMS_CHANGED]\<rparr>)"
  by (simp add: deleteStream_def step_defs example_defs)

subsection \<open>Soft delete, then hard delete\<close>

lemma findById_stream_id: "findById ss i = Some s \<Longrightarrow> stream_id s = i"
  by (induction ss i rule: findById.induct) (auto split: if_splits option.splits)

lemma findById_setTrashed:
  "findById (map (setTrashed i) ss) k = map_option (setTrashed i) (findById ss k)"
  by (induction ss k rule: findById.induct) (auto split: option.splits)

lemma trashed_setTrashed: "stream_id s = i \<Longrightarrow> trashed (setTrashed i s) = Some True"
  by (cases s) simp

lemma stream_id_setTrashed: "stream_id (setTrashed i s) = stream_id s"
  by (cases s) simp

lemma parentId_setTrashed: "parentId (setTrashed i s) = parentId s"
  by (cases s) simp

lemma findById_None_iff:
  "findById ss x = None \<longleftrightarrow> x \<notin> set (concat (map collectPluckFromRootItem ss))"
  by (induction ss x rule: findById.induct) (auto split: option.splits)

lemma pruneStream_ids:
  "x \<in> set (collectPluckFromRootItem (pruneStream ids s)) \<Longrightarrow> x \<in> set ids \<Longrightarrow> x = stream_id s"
proof (induction s)
  case (Stream j p t cs)
  show ?case
  proof (rule ccontr)
    assume ne: "x \<noteq> stream_id (Stream j p t cs)"
    then obtain c where c: "c \<in> set cs" "stream_id c \<notin> set ids"
      "x \<in> set (collectPluckFromRootItem (pruneStream ids c))"
      using Stream.prems(1) by auto
    then have "x = stream_id c" using Stream.IH Stream.prems(2) by blast
    then show False using c(2) Stream.prems(2) by simp
  qed
qed

lemma streams_delete_removes:
  assumes "x \<in> set ids"
  shows "findById (streams_delete ids ss) x = None"
proof -
  have "x \<notin> set (concat (map collectPluckFromRootItem (streams_delete ids ss)))"
  proof
    assume "x \<in> set (concat (map collectPluckFromRootItem (streams_delete ids ss)))"
    then obtain s where s: "s \<in> set ss" "stream_id s \<notin> set ids"
      "x \<in> set (collectPluckFromRootItem (pruneStream ids s))"
      by (auto simp: streams_delete_def)
    then have "x = stream_id s" using pruneStream_ids assms by blast
    then show False using s(2) assms by simp
  qed
  then show ?thesis by (simp add: findById_None_iff)
qed

lemma foldl_preserves:
  assumes "\<And>s x. g (f s x) = g s"
  shows "g (foldl f st xs) = g st"
  using assms by (induction xs arbitrary: st) simp_all

lemma series_preserves:
  assumes "\<forall>f \<in> set fs. \<forall>s s'. f s = Inr s' \<longrightarrow> g s' = g s"
  shows "g (snd (series fs st)) = g st"
  using assms
proof (induction fs arbitrary: st)
  case Nil
  show ?case by simp
next
  case (Cons f fs)
  show ?case
  proof (cases "f st")
    case (Inl e)
    then show ?thesis by simp
  next
    case (Inr s')
    have "g (snd (series fs s')) = g s'" using Cons.IH Cons.prems by simp
    moreover have "g s' = g st" using Cons.prems Inr by simp
    ultimately show ?thesis using Inr by simp
  qed
qed

lemma series_no_error:
  assumes "\<forall>f \<in> set fs. \<forall>s. \<exists>s'. f s = Inr s'"
  shows "fst (series fs st) = None"
  using assms
proof (induction fs arbitrary: st)
  case Nil
  show ?case by simp
next
  case (Cons f fs)
  obtain s' where "f st = Inr s'" using Cons.prems by force
  then show ?case using Cons.IH Cons.prems by simp
qed

lemma generateLogIfNecessary_streams:
  "generateLogIfNecessary cfg ids s = Inr s' \<Longrightarrow> streams s' = streams s"
  by (auto simp: generateLogIfNecessary_def foldl_preserves split: if_splits)

lemma addParentStreamIdIfNeeded_streams:
  "addParentStreamIdIfNeeded cfg ids parent s = Inr s' \<Longrightarrow> streams s' = streams s"
  by (auto simp: addParentStreamIdIfNeeded_def split: if_splits)

lemma removeStreamdIds_streams:
  "removeStreamdIds cfg ids s = Inr s' \<Longrightarrow> streams s' = streams s"
  by (auto simp: removeStreamdIds_def split: if_splits)

lemma handleHistory_streams:
  "handleHistory cfg ids s = Inr s' \<Longrightarrow> streams s' = streams s"
  by (auto simp: handleHistory_def split: if_splits)

lemma removeAllForEvent_streams: "streams (removeAllForEvent cfg s i) = streams s"
  by (simp add: removeAllForEvent_def)

lemma deleteEventsWithAttachments_streams:
  "deleteEventsWithAttachments cfg ids s = Inr s' \<Longrightarrow> streams s' = streams s"
  by (auto simp: deleteEventsWithAttachments_def removeAllForEvent_streams
      intro!: foldl_preserves split: if_splits)

lemma removeStreamdIdsFromAllEvents_streams:
  "removeStreamdIdsFromAllEvents cfg ids s = Inr s' \<Longrightarrow> streams s' = streams s"
  by (auto simp: removeStreamdIdsFromAllEvents_def split: if_splits)

lemma deleteEvents_streams:
  "deleteEvents cfg ids s = Inr s' \<Longrightarrow> streams s' = streams s"
  by (auto simp: deleteEvents_def split: if_splits)

lemma handleLinkedEvents_streams:
  "streams (snd (handleLinkedEvents cfg p ids pid linked st)) = streams st"
proof -
  have m: "streams (snd (series [generateLogIfNecessary cfg ids,
             addParentStreamIdIfNeeded cfg ids parent, removeStreamdIds cfg ids] st)) = streams st"
    for parent
    by (rule series_preserves)
      (auto dest: generateLogIfNecessary_streams addParentStreamIdIfNeeded_streams
        removeStreamdIds_streams)
  have d: "streams (snd (series [handleHistory cfg ids, deleteEventsWithAttachments cfg ids,
             removeStreamdIdsFromAllEvents cfg ids, deleteEvents cfg ids] st)) = streams st"
    by (rule series_preserves)
      (auto dest: handleHistory_streams deleteEventsWithAttachments_streams
        removeStreamdIdsFromAllEvents_streams deleteEvents_streams)
  show ?thesis using m d by (simp add: handleLinkedEvents_def split: option.splits)
qed

lemma deleteWithData_success:
  assumes "findById (streams st) (params_id p) = Some s"
    and "fst (deleteWithData cfg p st) = Inr r"
  shows "r = ResultStreamDeletion (params_id p) \<and>
         streams (snd (deleteWithData cfg p st)) = streams_delete (collectPluckFromRootItem s) (streams st)"
proof -
  let ?ids = "collectPluckFromRootItem s"
  from assms(2) obtain linked where
    chk: "checkIfRootStreamAndLinkedEventsExist cfg p ?ids (parentId s) st = Inr linked"
    and ret: "retrieveStreamIdsToDelete cfg p st = Inr (?ids, parentId s)"
    using assms(1)
    by (auto simp: deleteWithData_def retrieveStreamIdsToDelete_def split: if_splits sum.splits)
  obtain err st' where h: "handleLinkedEvents cfg p ?ids (parentId s) linked st = (err, st')"
    by (cases "handleLinkedEvents cfg p ?ids (parentId s) linked st")
  have st': "streams st' = streams st"
    using handleLinkedEvents_streams[of cfg p ?ids "parentId s" linked st] h by simp
  have run: "deleteWithData cfg p st =
      (case err of Some e \<Rightarrow> (Inl e, st') | None \<Rightarrow> deleteStreams cfg p ?ids st')"
    using ret chk h by (simp add: deleteWithData_def split: option.splits)
  show ?thesis using assms(2) st' unfolding run
    by (auto simp: deleteStreams_def split: option.splits if_splits)
qed

lemma handleLinkedEvents_no_error:
  assumes "\<forall>call. \<not> storageFails cfg call"
    and "mergeEventsWithParent p = Some True \<longrightarrow> pid \<noteq> None"
  shows "fst (handleLinkedEvents cfg p ids pid linked st) = None"
proof -
  have m: "fst (series [generateLogIfNecessary cfg ids,
             addParentStreamIdIfNeeded cfg ids parent, removeStreamdIds cfg ids] st) = None"
    for parent
    using assms(1)
    by (intro series_no_error)
      (auto simp: generateLogIfNecessary_def addParentStreamIdIfNeeded_def removeStreamdIds_def)
  have d: "fst (series [handleHistory cfg ids, deleteEventsWithAttachments cfg ids,
             removeStreamdIdsFromAllEvents cfg ids, deleteEvents cfg ids] st) = None"
    using assms(1)
    by (intro series_no_error)
      (auto simp: handleHistory_def deleteEventsWithAttachments_def
        removeStreamdIdsFromAllEvents_def deleteEvents_def)
  show ?thesis using m d assms(2) by (auto simp: handleLinkedEvents_def split: option.splits)
qed

lemma linked_iff:
  "events_find (streamIdsIn ids) evs \<noteq> []
     \<longleftrightarrow> (\<exists>e \<in> set evs. headId e = None \<and> (\<exists>x \<in> set (streamIds e). x \<in> set ids))"
  by (auto simp: events_find_def streamIdsIn_def list_ex_iff filter_empty_conv)

lemma deleteWithData_succeeds:
  assumes "findById (streams st) (params_id p) = Some s"
    and "\<forall>call. \<not> storageFails cfg call"
    and "mergeEventsWithParent p = Some True \<longrightarrow> parentId s \<noteq> None"
    and "mergeEventsWithParent p = None \<longrightarrow>
           events_find (streamIdsIn (collectPluckFromRootItem s)) (events st) = []"
  shows "fst (deleteWithData cfg p st) = Inr (ResultStreamDeletion (params_id p))"
proof -
  let ?ids = "collectPluckFromRootItem s"
  have ret: "retrieveStreamIdsToDelete cfg p st = Inr (?ids, parentId s)"
    using assms(1,2) by (simp add: retrieveStreamIdsToDelete_def)
  have "\<exists>linked. checkIfRootStreamAndLinkedEventsExist cfg p ?ids (parentId s) st = Inr linked"
    using assms(2-4) by (auto simp: checkIfRootStreamAndLinkedEventsExist_def Let_def)
  then obtain linked where
    chk: "checkIfRootStreamAndLinkedEventsExist cfg p ?ids (parentId s) st = Inr linked"
    by blast
  obtain err st' where h: "handleLinkedEvents cfg p ?ids (parentId s) linked st = (err, st')"
    by (cases "handleLinkedEvents cfg p ?ids (parentId s) linked st")
  have "err = None"
    using handleLinkedEvents_no_error[OF assms(2,3), of ?ids linked st] h by simp
  then show ?thesis using ret chk h assms(2)
    by (simp add: deleteWithData_def deleteStreams_def)
qed

lemma deleteWithData_rejected:
  assumes "findById (streams st) (params_id p) = Some s"
    and "\<forall>call. \<not> storageFails cfg call"
    and "mergeEventsWithParent p = Some True \<and> parentId s = None \<or>
         mergeEventsWithParent p = None \<and>
           events_find (streamIdsIn (collectPluckFromRootItem s)) (events st) \<noteq> []"
  shows "fst (deleteWithData cfg p st) = Inl InvalidOperation \<or>
         fst (deleteWithData cfg p st) = Inl InvalidParametersFormat"
proof -
  let ?ids = "collectPluckFromRootItem s"
  have ret: "retrieveStreamIdsToDelete cfg p st = Inr (?ids, parentId s)"
    using assms(1,2) by (simp add: retrieveStreamIdsToDelete_def)
  have "checkIfRootStreamAndLinkedEventsExist cfg p ?ids (parentId s) st = Inl InvalidOperation \<or>
        checkIfRootStreamAndLinkedEventsExist cfg p ?ids (parentId s) st
          = Inl InvalidParametersFormat"
    using assms(2,3) by (auto simp: checkIfRootStreamAndLinkedEventsExist_def Let_def)
  then show ?thesis using ret by (auto simp: deleteWithData_def)
qed

text \<open>
  C5 (amended). For a stream \<open>s\<close> of the tree that the method has loaded as
  \<^verbatim>\<open>context.stream\<close>:
  \<^item> if \<open>trashed\<close> is unset, no event is changed and, when the update of the stream
    succeeds, the result is the updated stream, which is the stream now found under the id,
    with \<open>trashed\<close> true;
  \<^item> if \<open>trashed\<close> is true, the method is the hard deletion; whenever it returns a result,
    the result is the deletion of the id, and neither \<open>s\<close> nor any descendant is in the
    tree any more; when no storage call fails, it returns that result for every request
    but the two that the validation rejects: \<^verbatim>\<open>mergeEventsWithParent\<close> true for a
    root stream, and \<^verbatim>\<open>mergeEventsWithParent\<close> null while a live event is linked to
    the closure. The plain second call (null, no linked event) removes the stream and its
    descendants, as do the calls with false, and with true for a stream that has a parent.
  The hard deletion of a trashed stream does not always remove it: in the two rejected cases
  the tree is unchanged.
\<close>

theorem two_phase_delete:
  assumes "findById (streams st) (params_id p) = Some s" and "ctx_stream c = s"
  shows "(trashed s = None \<longrightarrow>
            events (snd (deleteStream cfg c p st)) = events st \<and>
            (\<not> storageFails cfg FlagAsTrashed \<longrightarrow>
               (\<exists>s'. fst (deleteStream cfg c p st) = Inr (ResultStream (Some s')) \<and>
                     findById (streams (snd (deleteStream cfg c p st))) (params_id p) = Some s' \<and>
                     stream_id s' = stream_id s \<and> parentId s' = parentId s \<and>
                     trashed s' = Some True))) \<and>
         (trashed s = Some True \<longrightarrow>
            deleteStream cfg c p st = deleteWithData cfg p st \<and>
            (\<forall>r. fst (deleteStream cfg c p st) = Inr r \<longrightarrow>
                 r = ResultStreamDeletion (params_id p) \<and>
                 (\<forall>x \<in> set (collectPluckFromRootItem s).
                     findById (streams (snd (deleteStream cfg c p st))) x = None)) \<and>
            ((\<forall>call. \<not> storageFails cfg call) \<longrightarrow>
               (fst (deleteStream cfg c p st) = Inr (ResultStreamDeletion (params_id p))
                  \<longleftrightarrow>
                \<not> (mergeEventsWithParent p = Some True \<and> parentId s = None) \<and>
                \<not> (mergeEventsWithParent p = None \<and>
                     (\<exists>e \<in> set (events st). headId e = None \<and>
                        (\<exists>x \<in> set (streamIds e). x \<in> set (collectPluckFromRootItem s)))))))"
proof (intro conjI impI)
  assume t: "trashed s = None"
  then have soft: "deleteStream cfg c p st = flagAsTrashed cfg p st"
    using assms(2) by (simp add: deleteStream_def)
  show "events (snd (deleteStream cfg c p st)) = events st"
    unfolding soft by (simp add: flagAsTrashed_def Let_def)
  assume ok: "\<not> storageFails cfg FlagAsTrashed"
  let ?s' = "setTrashed (params_id p) s"
  have sid: "stream_id s = params_id p" using assms(1) by (rule findById_stream_id)
  have found: "findById (map (setTrashed (params_id p)) (streams st)) (params_id p) = Some ?s'"
    using assms(1) by (simp add: findById_setTrashed)
  have "fst (deleteStream cfg c p st) = Inr (ResultStream (Some ?s')) \<and>
        findById (streams (snd (deleteStream cfg c p st))) (params_id p) = Some ?s' \<and>
        stream_id ?s' = stream_id s \<and> parentId ?s' = parentId s \<and> trashed ?s' = Some True"
    unfolding soft using ok found sid
    by (simp add: flagAsTrashed_def Let_def stream_id_setTrashed parentId_setTrashed
        trashed_setTrashed)
  then show "\<exists>s'. fst (deleteStream cfg c p st) = Inr (ResultStream (Some s')) \<and>
        findById (streams (snd (deleteStream cfg c p st))) (params_id p) = Some s' \<and>
        stream_id s' = stream_id s \<and> parentId s' = parentId s \<and> trashed s' = Some True"
    by blast
next
  assume t: "trashed s = Some True"
  then show hard: "deleteStream cfg c p st = deleteWithData cfg p st"
    using assms(2) by (simp add: deleteStream_def)
  show "\<forall>r. fst (deleteStream cfg c p st) = Inr r \<longrightarrow>
          r = ResultStreamDeletion (params_id p) \<and>
          (\<forall>x \<in> set (collectPluckFromRootItem s).
              findById (streams (snd (deleteStream cfg c p st))) x = None)"
    unfolding hard using deleteWithData_success[OF assms(1)] streams_delete_removes by simp
  assume ok: "\<forall>call. \<not> storageFails cfg call"
  let ?rejected = "mergeEventsWithParent p = Some True \<and> parentId s = None \<or>
     mergeEventsWithParent p = None \<and>
       events_find (streamIdsIn (collectPluckFromRootItem s)) (events st) \<noteq> []"
  have yes: "fst (deleteWithData cfg p st) = Inr (ResultStreamDeletion (params_id p))"
    if "\<not> ?rejected"
  proof -
    have a1: "mergeEventsWithParent p = Some True \<longrightarrow> parentId s \<noteq> None"
      using that by auto
    have a2: "mergeEventsWithParent p = None \<longrightarrow>
        events_find (streamIdsIn (collectPluckFromRootItem s)) (events st) = []"
      using that by auto
    show ?thesis by (rule deleteWithData_succeeds[OF assms(1) ok a1 a2])
  qed
  have no: "fst (deleteWithData cfg p st) \<noteq> Inr (ResultStreamDeletion (params_id p))"
    if "?rejected"
    using deleteWithData_rejected[OF assms(1) ok that] by auto
  have "fst (deleteWithData cfg p st) = Inr (ResultStreamDeletion (params_id p))
      \<longleftrightarrow> \<not> ?rejected"
    using yes no by blast
  then show "fst (deleteStream cfg c p st) = Inr (ResultStreamDeletion (params_id p))
      \<longleftrightarrow>
       \<not> (mergeEventsWithParent p = Some True \<and> parentId s = None) \<and>
       \<not> (mergeEventsWithParent p = None \<and>
            (\<exists>e \<in> set (events st). headId e = None \<and>
               (\<exists>x \<in> set (streamIds e). x \<in> set (collectPluckFromRootItem s))))"
    unfolding hard linked_iff by blast
qed

theorem two_phase_delete_witness:
  "findById (treeAB True) ''A'' = Some (Stream ''A'' None None [streamAB True]) \<and>
   deleteStream (mkSettings False ''keep-nothing'')
     \<lparr>ctx_stream = Stream ''A'' None None [streamAB True]\<rparr>
     \<lparr>params_id = ''A'', mergeEventsWithParent = None\<rparr>
     (mkStorage (treeAB True) [mkEvent ''e9'' [''A''] None None])
   = (Inr (ResultStream (Some (Stream ''A'' None (Some True) [streamAB True]))),
      \<lparr>streams = [Stream ''A'' None (Some True) [streamAB True]],
       events = [mkEvent ''e9'' [''A''] None None], eventFiles = [], errorLog = [],
       notifications = [USERNAME_BASED_STREAMS_CHANGED]\<rparr>) \<and>
   findById (treeAB True) ''A/B'' = Some (streamAB True) \<and>
   trashed (streamAB True) = Some True \<and>
   fst (deleteStream (mkSettings False ''keep-nothing'') \<lparr>ctx_stream = streamAB True\<rparr>
     \<lparr>params_id = ''A/B'', mergeEventsWithParent = None\<rparr>
     (mkStorage (treeAB True) [mkEvent ''e9'' [''A''] None None]))
   = Inr (ResultStreamDeletion ''A/B'') \<and>
   findById (streams (snd (deleteStream (mkSettings False ''keep-nothing'')
     \<lparr>ctx_stream = streamAB True\<rparr>
     \<lparr>params_id = ''A/B'', mergeEventsWithParent = None\<rparr>
     (mkStorage (treeAB True) [mkEvent ''e9'' [''A''] None None])))) ''A/B'' = None"
proof -
  let ?cfg = "mkSettings False ''keep-nothing''"
  let ?st = "mkStorage (treeAB True) [mkEvent ''e9'' [''A''] None None]"
  let ?a = "Stream ''A'' None None [streamAB True]"
  let ?c1 = "\<lparr>ctx_stream = ?a\<rparr>"
  let ?p1 = "\<lparr>params_id = ''A'', mergeEventsWithParent = None\<rparr>"
  let ?c2 = "\<lparr>ctx_stream = streamAB True\<rparr>"
  let ?p2 = "\<lparr>params_id = ''A/B'', mergeEventsWithParent = None\<rparr>"
  have f1: "findById (treeAB True) ''A'' = Some ?a" by (simp add: example_defs)
  have f2: "findById (treeAB True) ''A/B'' = Some (streamAB True)" by (simp add: example_defs)
  have h1: "findById (streams ?st) (params_id ?p1) = Some ?a" using f1 by (simp add: mkStorage_def)
  have h2: "findById (streams ?st) (params_id ?p2) = Some (streamAB True)"
    using f2 by (simp add: mkStorage_def)
  have t1: "trashed ?a = None" by simp
  have t2: "trashed (streamAB True) = Some True" by (simp add: streamAB_def)
  have ok: "\<forall>call. \<not> storageFails ?cfg call" by (simp add: mkSettings_def)
  have soft: "events (snd (deleteStream ?cfg ?c1 ?p1 ?st)) = events ?st \<and>
      (\<exists>s'. fst (deleteStream ?cfg ?c1 ?p1 ?st) = Inr (ResultStream (Some s')) \<and>
            findById (streams (snd (deleteStream ?cfg ?c1 ?p1 ?st))) (params_id ?p1) = Some s' \<and>
            stream_id s' = stream_id ?a \<and> parentId s' = parentId ?a \<and> trashed s' = Some True)"
  proof -
    have c1: "ctx_stream ?c1 = ?a" by simp
    have nf: "\<not> storageFails ?cfg FlagAsTrashed" using ok by blast
    show ?thesis using two_phase_delete[OF h1 c1, of ?cfg] t1 nf by blast
  qed
  have run1: "deleteStream ?cfg ?c1 ?p1 ?st
     = (Inr (ResultStream (Some (Stream ''A'' None (Some True) [streamAB True]))),
        \<lparr>streams = [Stream ''A'' None (Some True) [streamAB True]],
         events = [mkEvent ''e9'' [''A''] None None], eventFiles = [], errorLog = [],
         notifications = [USERNAME_BASED_STREAMS_CHANGED]\<rparr>)"
    using soft by (simp add: deleteStream_def step_defs example_defs)
  have hard: "fst (deleteStream ?cfg ?c2 ?p2 ?st) = Inr (ResultStreamDeletion ''A/B'') \<and>
      (\<forall>x \<in> set (collectPluckFromRootItem (streamAB True)).
          findById (streams (snd (deleteStream ?cfg ?c2 ?p2 ?st))) x = None)"
  proof -
    have c2: "ctx_stream ?c2 = streamAB True" by simp
    have n1: "\<not> (mergeEventsWithParent ?p2 = Some True \<and> parentId (streamAB True) = None)"
      by simp
    have n2: "\<not> (mergeEventsWithParent ?p2 = None \<and>
        (\<exists>e \<in> set (events ?st). headId e = None \<and>
           (\<exists>x \<in> set (streamIds e). x \<in> set (collectPluckFromRootItem (streamAB True)))))"
      by (simp add: example_defs)
    have succ: "fst (deleteStream ?cfg ?c2 ?p2 ?st) = Inr (ResultStreamDeletion (params_id ?p2))"
      using two_phase_delete[OF h2 c2, of ?cfg] t2 ok n1 n2 by blast
    have "\<forall>x \<in> set (collectPluckFromRootItem (streamAB True)).
          findById (streams (snd (deleteStream ?cfg ?c2 ?p2 ?st))) x = None"
      using two_phase_delete[OF h2 c2, of ?cfg] t2 succ by blast
    then show ?thesis using succ by simp
  qed
  then have gone: "findById (streams (snd (deleteStream ?cfg ?c2 ?p2 ?st))) ''A/B'' = None"
    by (simp add: streamAB_def)
  show ?thesis using f1 run1 f2 t2 hard gone by blast
qed

theorem trashed_stream_not_removed_when_rejected:
  "trashed (streamAB True) = Some True \<and>
   fst (deleteStream (mkSettings False ''keep-nothing'') \<lparr>ctx_stream = streamAB True\<rparr>
     \<lparr>params_id = ''A/B'', mergeEventsWithParent = None\<rparr>
     (mkStorage (treeAB True) [mkEvent ''e2'' [''A/B''] None None]))
   = Inl InvalidParametersFormat \<and>
   findById (streams (snd (deleteStream (mkSettings False ''keep-nothing'')
     \<lparr>ctx_stream = streamAB True\<rparr>
     \<lparr>params_id = ''A/B'', mergeEventsWithParent = None\<rparr>
     (mkStorage (treeAB True) [mkEvent ''e2'' [''A/B''] None None])))) ''A/B''
   = Some (streamAB True)"
  by (simp add: deleteStream_def step_defs example_defs)

subsection \<open>Merging the events into the parent\<close>

lemma setPositional_split:
  assumes "list_ex (\<lambda>x. x \<in> set ids) xs"
  shows "\<exists>pre c suf. xs = pre @ c # suf \<and> c \<in> set ids \<and> (\<forall>x \<in> set pre. x \<notin> set ids) \<and>
           setPositional ids v xs = pre @ v # suf"
  using assms
proof (induction xs)
  case Nil
  then show ?case by simp
next
  case (Cons a xs)
  show ?case
  proof (cases "a \<in> set ids")
    case True
    then have "a # xs = [] @ a # xs \<and> a \<in> set ids \<and> (\<forall>x \<in> set []. x \<notin> set ids) \<and>
        setPositional ids v (a # xs) = [] @ v # xs" by simp
    then show ?thesis by blast
  next
    case False
    then have "list_ex (\<lambda>x. x \<in> set ids) xs" using Cons.prems by simp
    then obtain pre c suf where s: "xs = pre @ c # suf" "c \<in> set ids"
      "\<forall>x \<in> set pre. x \<notin> set ids" "setPositional ids v xs = pre @ v # suf"
      using Cons.IH by blast
    have "a # xs = (a # pre) @ c # suf \<and> c \<in> set ids \<and> (\<forall>x \<in> set (a # pre). x \<notin> set ids) \<and>
        setPositional ids v (a # xs) = (a # pre) @ v # suf"
      using s False by simp
    then show ?thesis by blast
  qed
qed

lemma pullStreamIds_unlinked: "\<not> streamIdsIn ids e \<Longrightarrow> pullStreamIds ids e = e"
proof -
  assume "\<not> streamIdsIn ids e"
  then have "filter (\<lambda>x. x \<notin> set ids) (streamIds e) = streamIds e"
    by (auto simp: streamIdsIn_def list_ex_iff intro: filter_True)
  then show ?thesis by (simp add: pullStreamIds_def)
qed

lemma pull_updateMany:
  "events_updateMany (\<lambda>e. streamIdsIn ids e \<and> \<not> headIdExists e) (pullStreamIds ids) evs
     = map (\<lambda>e. if headId e = None then pullStreamIds ids e else e) evs"
  by (auto simp: events_updateMany_def headIdExists_def pullStreamIds_unlinked)

lemma merge_path_run:
  assumes "mergeEventsWithParent p = Some True"
    and "\<not> storageFails cfg GenerateLogIfNecessary"
    and "\<not> storageFails cfg AddParentStreamIdIfNeeded"
    and "\<not> storageFails cfg RemoveStreamdIds"
  shows "\<exists>st' new. handleLinkedEvents cfg p ids (Some parent) True st = (None, st') \<and>
           events st' =
             map (\<lambda>e. if headId e = None then pullStreamIds ids e else e)
               (map (\<lambda>e. if parent \<notin> set (streamIds e) \<and> streamIdsIn ids e \<and> headId e = None
                          then e\<lparr>streamIds := setPositional ids parent (streamIds e)\<rparr> else e)
                  (events st @ new))"
proof -
  have "\<exists>st1. generateLogIfNecessary cfg ids st = Inr st1"
    using assms(2) by (simp add: generateLogIfNecessary_def)
  then obtain st1 where g: "generateLogIfNecessary cfg ids st = Inr st1" by blast
  obtain new where n: "events st1 = events st @ new"
    using g foldl_append_events[of "eventToVersion cfg" st]
    by (auto simp: generateLogIfNecessary_def split: if_splits)
  let ?st2 = "st1\<lparr>events :=
                  events_updateMany
                    (\<lambda>e. parent \<notin> set (streamIds e) \<and> streamIdsIn ids e \<and> \<not> headIdExists e)
                    (\<lambda>e. e\<lparr>streamIds := setPositional ids parent (streamIds e)\<rparr>)
                    (events st1),
                notifications := notifications st1 @ [USERNAME_BASED_EVENTS_CHANGED]\<rparr>"
  have a: "addParentStreamIdIfNeeded cfg ids parent st1 = Inr ?st2"
    using assms(3) by (simp add: addParentStreamIdIfNeeded_def)
  let ?st3 = "?st2\<lparr>events := events_updateMany (\<lambda>e. streamIdsIn ids e \<and> \<not> headIdExists e)
                    (pullStreamIds ids) (events ?st2)\<rparr>"
  have r: "removeStreamdIds cfg ids ?st2 = Inr ?st3"
    using assms(4) by (simp add: removeStreamdIds_def)
  have run: "handleLinkedEvents cfg p ids (Some parent) True st = (None, ?st3)"
    using assms(1) g a r by (simp add: handleLinkedEvents_def)
  have "events ?st3 =
             map (\<lambda>e. if headId e = None then pullStreamIds ids e else e)
               (map (\<lambda>e. if parent \<notin> set (streamIds e) \<and> streamIdsIn ids e \<and> headId e = None
                          then e\<lparr>streamIds := setPositional ids parent (streamIds e)\<rparr> else e)
                  (events st @ new))"
    using n by (simp add: pull_updateMany) (simp add: events_updateMany_def headIdExists_def)
  then show ?thesis using run by blast
qed

text \<open>
  C2 (amended). On the merge path, when its three storage calls succeed, for the event at
  any place \<open>i\<close> of the collection:
  \<^item> a live event linked to the closure whose \<open>streamIds\<close> do not include the parent has
    the first closure member of its \<open>streamIds\<close> overwritten by the parent id, at that
    member's position (the members before it, none of them in the closure, keep their
    places), and every closure id is then removed;
  \<^item> a live event that already includes the parent only loses its closure ids;
  \<^item> a history row, and an event not linked to the closure, is unchanged;
  and afterwards no live event of the collection has a closure id among its \<open>streamIds\<close>.
  So the parent id is the first element only when the first closure member was: with tree
  \<open>A\<close>, \<open>A/B\<close>, \<open>streamIds\<close> \<open>A/B\<close> becomes \<open>A\<close>, while \<open>X, A/B\<close>
  becomes \<open>X, A\<close>.
\<close>

theorem merge_replaces_first_closure_member:
  assumes "mergeEventsWithParent p = Some True"
    and "\<not> storageFails cfg GenerateLogIfNecessary"
    and "\<not> storageFails cfg AddParentStreamIdIfNeeded"
    and "\<not> storageFails cfg RemoveStreamdIds"
    and "i < length (events st)"
  shows "\<exists>st'. handleLinkedEvents cfg p ids (Some parent) True st = (None, st') \<and>
           i < length (events st') \<and>
           (\<forall>j < length (events st'). headId (events st' ! j) = None \<longrightarrow>
              (\<forall>x \<in> set (streamIds (events st' ! j)). x \<notin> set ids)) \<and>
           (headId (events st ! i) = None \<and> streamIdsIn ids (events st ! i) \<and>
            parent \<notin> set (streamIds (events st ! i)) \<longrightarrow>
              (\<exists>pre c suf. streamIds (events st ! i) = pre @ c # suf \<and> c \<in> set ids \<and>
                 (\<forall>x \<in> set pre. x \<notin> set ids) \<and>
                 events st' ! i =
                   (events st ! i)\<lparr>streamIds := pre @ filter (\<lambda>x. x \<notin> set ids) (parent # suf)\<rparr>)) \<and>
           (headId (events st ! i) = None \<and> parent \<in> set (streamIds (events st ! i)) \<longrightarrow>
              events st' ! i =
                (events st ! i)\<lparr>streamIds := filter (\<lambda>x. x \<notin> set ids) (streamIds (events st ! i))\<rparr>) \<and>
           (headId (events st ! i) \<noteq> None \<or> \<not> streamIdsIn ids (events st ! i) \<longrightarrow>
              events st' ! i = events st ! i)"
proof -
  let ?f1 = "\<lambda>e. if parent \<notin> set (streamIds e) \<and> streamIdsIn ids e \<and> headId e = None
                  then e\<lparr>streamIds := setPositional ids parent (streamIds e)\<rparr> else e"
  let ?f2 = "\<lambda>e. if headId e = None then pullStreamIds ids e else e"
  let ?e = "events st ! i"
  obtain st' new where run: "handleLinkedEvents cfg p ids (Some parent) True st = (None, st')"
    and ev: "events st' = map ?f2 (map ?f1 (events st @ new))"
    using merge_path_run[OF assms(1-4)] by blast
  have len: "i < length (events st')" using ev assms(5) by simp
  have at: "events st' ! i = ?f2 (?f1 ?e)"
    using ev assms(5) by (simp add: nth_append)
  have clean: "\<forall>j < length (events st'). headId (events st' ! j) = None \<longrightarrow>
              (\<forall>x \<in> set (streamIds (events st' ! j)). x \<notin> set ids)"
  proof (intro allI impI)
    fix j assume j: "j < length (events st')" and live: "headId (events st' ! j) = None"
    let ?d = "?f1 ((events st @ new) ! j)"
    have jl: "j < length (events st @ new)" using j ev by simp
    have "events st' ! j = ?f2 ?d" unfolding ev using jl by (simp only: nth_map length_map)
    moreover have "headId (?f2 ?d) = headId ?d" by (simp add: pullStreamIds_def)
    ultimately have "events st' ! j = pullStreamIds ids ?d" using live by simp
    then show "\<forall>x \<in> set (streamIds (events st' ! j)). x \<notin> set ids"
      by (simp add: pullStreamIds_def)
  qed
  have c1: "headId ?e = None \<and> streamIdsIn ids ?e \<and> parent \<notin> set (streamIds ?e) \<longrightarrow>
              (\<exists>pre c suf. streamIds ?e = pre @ c # suf \<and> c \<in> set ids \<and>
                 (\<forall>x \<in> set pre. x \<notin> set ids) \<and>
                 events st' ! i = ?e\<lparr>streamIds := pre @ filter (\<lambda>x. x \<notin> set ids) (parent # suf)\<rparr>)"
  proof
    assume h: "headId ?e = None \<and> streamIdsIn ids ?e \<and> parent \<notin> set (streamIds ?e)"
    then obtain pre c suf where s: "streamIds ?e = pre @ c # suf" "c \<in> set ids"
      "\<forall>x \<in> set pre. x \<notin> set ids" "setPositional ids parent (streamIds ?e) = pre @ parent # suf"
      using setPositional_split[of ids "streamIds ?e" parent] by (auto simp: streamIdsIn_def)
    have pre: "filter (\<lambda>x. x \<notin> set ids) pre = pre" using s(3) by (auto intro: filter_True)
    have "events st' ! i = ?e\<lparr>streamIds := pre @ filter (\<lambda>x. x \<notin> set ids) (parent # suf)\<rparr>"
      unfolding at using h s(4) pre by (simp add: pullStreamIds_def)
    then show "\<exists>pre c suf. streamIds ?e = pre @ c # suf \<and> c \<in> set ids \<and>
                 (\<forall>x \<in> set pre. x \<notin> set ids) \<and>
                 events st' ! i = ?e\<lparr>streamIds := pre @ filter (\<lambda>x. x \<notin> set ids) (parent # suf)\<rparr>"
      using s(1-3) by blast
  qed
  have c2: "headId ?e = None \<and> parent \<in> set (streamIds ?e) \<longrightarrow>
              events st' ! i = ?e\<lparr>streamIds := filter (\<lambda>x. x \<notin> set ids) (streamIds ?e)\<rparr>"
    unfolding at by (simp add: pullStreamIds_def)
  have c3: "headId ?e \<noteq> None \<or> \<not> streamIdsIn ids ?e \<longrightarrow> events st' ! i = ?e"
    unfolding at by (auto simp: pullStreamIds_unlinked)
  show ?thesis using run len clean c1 c2 c3 by blast
qed

theorem merge_replaces_first_closure_member_witness:
  "mergeEventsWithParent \<lparr>params_id = ''A/B'', mergeEventsWithParent = Some True\<rparr> = Some True \<and>
   headId (mkEvent ''e2'' [''A/B''] None None) = None \<and>
   streamIdsIn [''A/B''] (mkEvent ''e2'' [''A/B''] None None) \<and>
   ''A'' \<notin> set (streamIds (mkEvent ''e2'' [''A/B''] None None)) \<and>
   snd (handleLinkedEvents (mkSettings False ''keep-nothing'')
          \<lparr>params_id = ''A/B'', mergeEventsWithParent = Some True\<rparr> [''A/B''] (Some ''A'') True
          (mkStorage (treeAB True) [mkEvent ''e2'' [''A/B''] None None]))
     = \<lparr>streams = treeAB True, events = [mkEvent ''e2'' [''A''] None None], eventFiles = [],
        errorLog = [], notifications = [USERNAME_BASED_EVENTS_CHANGED]\<rparr> \<and>
   deleteStream (mkSettings False ''keep-nothing'') \<lparr>ctx_stream = streamAB True\<rparr>
     \<lparr>params_id = ''A/B'', mergeEventsWithParent = Some True\<rparr>
     (mkStorage (treeAB True) [mkEvent ''e2'' [''A/B''] None None])
   = (Inr (ResultStreamDeletion ''A/B''),
      \<lparr>streams = [Stream ''A'' None None []], events = [mkEvent ''e2'' [''A''] None None],
       eventFiles = [], errorLog = [],
       notifications = [USERNAME_BASED_EVENTS_CHANGED, USERNAME_BASED_STREAMS_CHANGED]\<rparr>)"
proof -
  let ?cfg = "mkSettings False ''keep-nothing''"
  let ?p = "\<lparr>params_id = ''A/B'', mergeEventsWithParent = Some True\<rparr>"
  let ?e = "mkEvent ''e2'' [''A/B''] None None"
  let ?st = "mkStorage (treeAB True) [?e]"
  have h1: "mergeEventsWithParent ?p = Some True" by simp
  have h2: "\<not> storageFails ?cfg GenerateLogIfNecessary" by (simp add: mkSettings_def)
  have h3: "\<not> storageFails ?cfg AddParentStreamIdIfNeeded" by (simp add: mkSettings_def)
  have h4: "\<not> storageFails ?cfg RemoveStreamdIds" by (simp add: mkSettings_def)
  have h5: "0 < length (events ?st)" by (simp add: mkStorage_def)
  have e0: "events ?st ! 0 = ?e" by (simp add: mkStorage_def)
  have l1: "headId ?e = None" by (simp add: mkEvent_def)
  have l2: "streamIdsIn [''A/B''] ?e" by (simp add: mkEvent_def streamIdsIn_def)
  have l3: "''A'' \<notin> set (streamIds ?e)" by (simp add: mkEvent_def)
  obtain st' pre c suf where
    run: "handleLinkedEvents ?cfg ?p [''A/B''] (Some ''A'') True ?st = (None, st')"
    and sp: "streamIds ?e = pre @ c # suf"
    and at: "events st' ! 0 = ?e\<lparr>streamIds := pre @ filter (\<lambda>x. x \<notin> set [''A/B'']) (''A'' # suf)\<rparr>"
    using merge_replaces_first_closure_member[OF h1 h2 h3 h4 h5, of "[''A/B'']" "''A''"]
      l1 l2 l3 unfolding e0 by blast
  have "pre = [] \<and> suf = []" using sp by (cases pre) (auto simp: mkEvent_def)
  then have at': "events st' ! 0 = mkEvent ''e2'' [''A''] None None"
    using at by (simp add: mkEvent_def)
  have ev: "snd (handleLinkedEvents ?cfg ?p [''A/B''] (Some ''A'') True ?st)
     = \<lparr>streams = treeAB True, events = [events st' ! 0], eventFiles = [],
        errorLog = [], notifications = [USERNAME_BASED_EVENTS_CHANGED]\<rparr>"
    unfolding at' by (simp add: step_defs example_defs)
  have full: "deleteStream ?cfg \<lparr>ctx_stream = streamAB True\<rparr> ?p ?st
   = (Inr (ResultStreamDeletion ''A/B''),
      \<lparr>streams = [Stream ''A'' None None []], events = [mkEvent ''e2'' [''A''] None None],
       eventFiles = [], errorLog = [],
       notifications = [USERNAME_BASED_EVENTS_CHANGED, USERNAME_BASED_STREAMS_CHANGED]\<rparr>)"
    by (simp add: deleteStream_def step_defs example_defs)
  show ?thesis using h1 l1 l2 l3 ev full unfolding at' by blast
qed

theorem merged_parent_is_not_first_element:
  "snd (deleteStream (mkSettings False ''keep-nothing'') \<lparr>ctx_stream = streamAB True\<rparr>
     \<lparr>params_id = ''A/B'', mergeEventsWithParent = Some True\<rparr>
     (mkStorage (treeAB True @ [Stream ''X'' None None []])
        [mkEvent ''e2'' [''X'', ''A/B''] None None]))
   = \<lparr>streams = [Stream ''A'' None None [], Stream ''X'' None None []],
      events = [mkEvent ''e2'' [''X'', ''A''] None None], eventFiles = [], errorLog = [],
      notifications = [USERNAME_BASED_EVENTS_CHANGED, USERNAME_BASED_STREAMS_CHANGED]\<rparr> \<and>
   ''A'' \<notin> set (streamIds (mkEvent ''e2'' [''X'', ''A/B''] None None)) \<and>
   hd (streamIds (mkEvent ''e2'' [''X'', ''A''] None None)) \<noteq> ''A''"
  by (simp add: deleteStream_def step_defs example_defs)

subsection \<open>Detaching under keep-authors and keep-nothing\<close>

lemma minimize_fold:
  "foldl (\<lambda>evs head. events_minimizeEventsHistory (event_id head) evs) evs heads
     = map (\<lambda>e. if \<exists>h \<in> set heads. headId e = Some (event_id h) then minimizeEvent e else e) evs"
proof (induction heads arbitrary: evs)
  case Nil
  show ?case by simp
next
  case (Cons a heads)
  have idem: "minimizeEvent (minimizeEvent e) = minimizeEvent e" for e
    by (simp add: minimizeEvent_def)
  have hd: "headId (minimizeEvent e) = headId e" for e
    by (simp add: minimizeEvent_def)
  have "foldl (\<lambda>evs head. events_minimizeEventsHistory (event_id head) evs) evs (a # heads)
      = map (\<lambda>e. if \<exists>h \<in> set heads. headId e = Some (event_id h) then minimizeEvent e else e)
          (events_minimizeEventsHistory (event_id a) evs)"
    by (simp add: Cons.IH)
  then show ?case
    by (auto simp: events_minimizeEventsHistory_def idem hd)
qed

lemma removeMany_fold:
  "foldl (\<lambda>evs head. if skip head then evs
                       else events_removeMany (\<lambda>e. headId e = Some (event_id head)) evs) evs heads
     = filter (\<lambda>e. \<not> (\<exists>h \<in> set heads. \<not> skip h \<and> headId e = Some (event_id h))) evs"
proof (induction heads arbitrary: evs)
  case Nil
  show ?case by simp
next
  case (Cons a heads)
  let ?F = "\<lambda>evs head. if skip head then evs
                       else events_removeMany (\<lambda>e. headId e = Some (event_id head)) evs"
  have "foldl ?F evs (a # heads)
      = filter (\<lambda>e. \<not> (\<exists>h \<in> set heads. \<not> skip h \<and> headId e = Some (event_id h))) (?F evs a)"
    by (simp add: Cons.IH)
  then show ?case
    by (auto simp: events_removeMany_def intro: filter_cong)
qed

lemma fully_linked_iff:
  "streamIdsIn ids e \<and> \<not> stillAttached ids e
     \<longleftrightarrow> streamIds e \<noteq> [] \<and> set (streamIds e) \<subseteq> set ids"
proof (cases "streamIds e")
  case Nil
  then show ?thesis by (simp add: streamIdsIn_def)
next
  case (Cons a as)
  show ?thesis
  proof (cases as)
    case Nil
    then show ?thesis using Cons
      by (simp add: streamIdsIn_def stillAttached_def arrayAIsIncludedInB_def)
  next
    case (Cons b bs)
    then show ?thesis using \<open>streamIds e = a # as\<close>
      by (auto simp: streamIdsIn_def stillAttached_def arrayAIsIncludedInB_def list_all_iff)
  qed
qed

lemma deleteEventsWithAttachments_events:
  "deleteEventsWithAttachments cfg ids s = Inr s' \<Longrightarrow> events s' = events s"
  by (auto simp: deleteEventsWithAttachments_def removeAllForEvent_def
      intro!: foldl_preserves split: if_splits)

lemma deleteEventsWithAttachments_ok:
  "\<not> storageFails cfg DeleteEventsWithAttachments \<Longrightarrow>
     \<exists>s'. deleteEventsWithAttachments cfg ids s = Inr s'"
  by (simp add: deleteEventsWithAttachments_def)

lemma deleteStreams_events: "events (snd (deleteStreams cfg p ids s)) = events s"
  by (simp add: deleteStreams_def)

lemma deleteWithData_events:
  assumes "findById (streams st) (params_id p) = Some s"
    and "\<not> storageFails cfg RetrieveStreamIdsToDelete"
    and "\<not> storageFails cfg CheckIfRootStreamAndLinkedEventsExist"
    and "mergeEventsWithParent p = Some False"
  shows "events (snd (deleteWithData cfg p st))
     = events (snd (handleLinkedEvents cfg p (collectPluckFromRootItem s) (parentId s)
         (events_find (streamIdsIn (collectPluckFromRootItem s)) (events st) \<noteq> []) st))"
proof -
  let ?ids = "collectPluckFromRootItem s"
  let ?linked = "events_find (streamIdsIn ?ids) (events st) \<noteq> []"
  have ret: "retrieveStreamIdsToDelete cfg p st = Inr (?ids, parentId s)"
    using assms(1,2) by (simp add: retrieveStreamIdsToDelete_def)
  have chk: "checkIfRootStreamAndLinkedEventsExist cfg p ?ids (parentId s) st = Inr ?linked"
    using assms(3,4) by (simp add: checkIfRootStreamAndLinkedEventsExist_def)
  obtain err st' where h: "handleLinkedEvents cfg p ?ids (parentId s) ?linked st = (err, st')"
    by (cases "handleLinkedEvents cfg p ?ids (parentId s) ?linked st")
  have "deleteWithData cfg p st =
      (case err of Some e \<Rightarrow> (Inl e, st') | None \<Rightarrow> deleteStreams cfg p ?ids st')"
    using ret chk h by (simp add: deleteWithData_def split: option.splits)
  then show ?thesis using h by (simp add: deleteStreams_events split: option.splits)
qed

lemma detach_keep_authors_events:
  assumes "deletionMode cfg = ''keep-authors''"
    and "mergeEventsWithParent p = Some False"
    and "\<forall>call. \<not> storageFails cfg call"
  shows "events (snd (handleLinkedEvents cfg p ids pid True st))
     = filter (\<lambda>e. \<not> (headId e = None \<and> streamIds e = []))
         (map (\<lambda>e. if headId e = None then pullStreamIds ids e else e)
            (map (\<lambda>e. if \<exists>h \<in> set (events_find (streamIdsIn ids) (events st)).
                            headId e = Some (event_id h)
                       then minimizeEvent e else e)
               (events st)))"
proof -
  let ?E1 = "map (\<lambda>e. if \<exists>h \<in> set (events_find (streamIdsIn ids) (events st)).
                            headId e = Some (event_id h)
                       then minimizeEvent e else e) (events st)"
  have m: "deletionMode cfg \<noteq> ''keep-everything''" using assms(1) by simp
  have h: "handleHistory cfg ids st = Inr (st\<lparr>events := ?E1\<rparr>)"
    using assms(1,3) by (simp add: handleHistory_def minimize_fold)
  obtain st2 where a: "deleteEventsWithAttachments cfg ids (st\<lparr>events := ?E1\<rparr>) = Inr st2"
    using deleteEventsWithAttachments_ok assms(3) by blast
  have e2: "events st2 = ?E1" using deleteEventsWithAttachments_events[OF a] by simp
  let ?st3 = "st2\<lparr>events := map (\<lambda>e. if headId e = None then pullStreamIds ids e else e) ?E1\<rparr>"
  have r: "removeStreamdIdsFromAllEvents cfg ids st2 = Inr ?st3"
    using m assms(3) e2 by (simp add: removeStreamdIdsFromAllEvents_def pull_updateMany)
  obtain st4 where d: "deleteEvents cfg ids ?st3 = Inr st4"
    and e4: "events st4 = events_removeMany (deleteEventsFilter cfg ids) (events ?st3)"
    using assms(3) by (simp add: deleteEvents_def)
  have run: "handleLinkedEvents cfg p ids pid True st = (None, st4)"
    using assms(2) h a r d by (simp add: handleLinkedEvents_def)
  show ?thesis unfolding run using e4 m
    by (simp add: events_removeMany_def deleteEventsFilter_def headIdExists_def)
qed

lemma detach_keep_nothing_events:
  assumes "deletionMode cfg \<noteq> ''keep-everything''" and "deletionMode cfg \<noteq> ''keep-authors''"
    and "mergeEventsWithParent p = Some False"
    and "\<forall>call. \<not> storageFails cfg call"
  shows "events (snd (handleLinkedEvents cfg p ids pid True st))
     = filter (\<lambda>e. \<not> (headId e = None \<and> streamIds e = []))
         (map (\<lambda>e. if headId e = None then pullStreamIds ids e else e)
            (filter (\<lambda>e. \<not> (\<exists>h \<in> set (events_find (streamIdsIn ids) (events st)).
                            \<not> stillAttached ids h \<and> headId e = Some (event_id h)))
               (events st)))"
proof -
  let ?E1 = "filter (\<lambda>e. \<not> (\<exists>h \<in> set (events_find (streamIdsIn ids) (events st)).
                            \<not> stillAttached ids h \<and> headId e = Some (event_id h))) (events st)"
  have h: "handleHistory cfg ids st = Inr (st\<lparr>events := ?E1\<rparr>)"
    using assms(1,2,4) by (simp add: handleHistory_def removeMany_fold)
  obtain st2 where a: "deleteEventsWithAttachments cfg ids (st\<lparr>events := ?E1\<rparr>) = Inr st2"
    using deleteEventsWithAttachments_ok assms(4) by blast
  have e2: "events st2 = ?E1" using deleteEventsWithAttachments_events[OF a] by simp
  let ?st3 = "st2\<lparr>events := map (\<lambda>e. if headId e = None then pullStreamIds ids e else e) ?E1\<rparr>"
  have r: "removeStreamdIdsFromAllEvents cfg ids st2 = Inr ?st3"
    using assms(1,4) e2 by (simp add: removeStreamdIdsFromAllEvents_def pull_updateMany)
  obtain st4 where d: "deleteEvents cfg ids ?st3 = Inr st4"
    and e4: "events st4 = events_removeMany (deleteEventsFilter cfg ids) (events ?st3)"
    using assms(4) by (simp add: deleteEvents_def)
  have run: "handleLinkedEvents cfg p ids pid True st = (None, st4)"
    using assms(3) h a r d by (simp add: handleLinkedEvents_def)
  show ?thesis unfolding run using e4 assms(1)
    by (simp add: events_removeMany_def deleteEventsFilter_def headIdExists_def)
qed

lemma history_count_preserved:
  assumes "\<And>x. headIdExists (g x) = headIdExists x" and "\<And>y. headIdExists y \<Longrightarrow> F y"
  shows "length (filter headIdExists (filter F (map g E))) = length (filter headIdExists E)"
  using assms by (induction E) auto

text \<open>
  C7. Hard deletion with \<^verbatim>\<open>mergeEventsWithParent\<close> false under \<open>keep-authors\<close>, no
  storage call failing. For every live event \<open>e\<close> that has a stream of the closure among
  its \<open>streamIds\<close> (alone or next to others) and every history row \<open>h\<close> of \<open>e\<close>:
  the row is still in the collection afterwards, with its id, \<open>headId\<close>, \<open>modified\<close>
  and \<open>modifiedBy\<close> and without content, attachments or \<open>streamIds\<close>; no row of
  \<open>e\<close>'s history is left with content; and the collection holds as many history rows as
  before.
\<close>

theorem keep_authors_minimizes_history:
  assumes "deletionMode cfg = ''keep-authors''"
    and "mergeEventsWithParent p = Some False"
    and "\<forall>call. \<not> storageFails cfg call"
    and "findById (streams st) (params_id p) = Some s"
    and "e \<in> set (events st)" and "headId e = None"
    and "x \<in> set (streamIds e)" and "x \<in> set (collectPluckFromRootItem s)"
    and "h \<in> set (events st)" and "headId h = Some (event_id e)"
  shows "(\<exists>h' \<in> set (events (snd (deleteWithData cfg p st))).
            event_id h' = event_id h \<and> headId h' = headId h \<and>
            modified h' = modified h \<and> modifiedBy h' = modifiedBy h \<and>
            content h' = None \<and> attachments h' = None \<and> streamIds h' = []) \<and>
         (\<forall>h' \<in> set (events (snd (deleteWithData cfg p st))).
            headId h' = Some (event_id e) \<longrightarrow>
              content h' = None \<and> attachments h' = None \<and> streamIds h' = []) \<and>
         length (filter headIdExists (events (snd (deleteWithData cfg p st))))
           = length (filter headIdExists (events st))"
proof -
  let ?ids = "collectPluckFromRootItem s"
  let ?heads = "events_find (streamIdsIn ?ids) (events st)"
  let ?f1 = "\<lambda>e. if \<exists>h \<in> set ?heads. headId e = Some (event_id h) then minimizeEvent e else e"
  let ?f2 = "\<lambda>e. if headId e = None then pullStreamIds ?ids e else e"
  let ?F = "\<lambda>e. \<not> (headId e = None \<and> streamIds e = [])"
  let ?E' = "events (snd (deleteWithData cfg p st))"
  have head: "e \<in> set ?heads"
    using assms(5-8) by (auto simp: events_find_def streamIdsIn_def list_ex_iff)
  then have linked: "?heads \<noteq> []" by auto
  have E': "?E' = filter ?F (map ?f2 (map ?f1 (events st)))"
    using deleteWithData_events[OF assms(4) _ _ assms(2), of cfg] assms(3) linked
      detach_keep_authors_events[OF assms(1,2,3), of ?ids "parentId s" st]
    by simp
  have hd1: "headId (?f1 y) = headId y" for y by (simp add: minimizeEvent_def)
  have hd2: "headId (?f2 y) = headId y" for y by (simp add: pullStreamIds_def)
  have img: "?f2 (?f1 h) = minimizeEvent h"
    using head assms(10) by (auto simp: minimizeEvent_def)
  have "minimizeEvent h \<in> set ?E'"
  proof -
    have "?f2 (?f1 h) \<in> set (map ?f2 (map ?f1 (events st)))" using assms(9) by simp
    moreover have "?F (minimizeEvent h)" using assms(10) by (simp add: minimizeEvent_def)
    ultimately show ?thesis unfolding E' img by simp
  qed
  then have c1: "\<exists>h' \<in> set ?E'.
            event_id h' = event_id h \<and> headId h' = headId h \<and>
            modified h' = modified h \<and> modifiedBy h' = modifiedBy h \<and>
            content h' = None \<and> attachments h' = None \<and> streamIds h' = []"
    by (intro bexI[of _ "minimizeEvent h"]) (simp_all add: minimizeEvent_def)
  have c2: "\<forall>h' \<in> set ?E'. headId h' = Some (event_id e) \<longrightarrow>
              content h' = None \<and> attachments h' = None \<and> streamIds h' = []"
  proof (intro ballI impI)
    fix h' assume m: "h' \<in> set ?E'" and hh: "headId h' = Some (event_id e)"
    have "h' \<in> ?f2 ` ?f1 ` set (events st)"
      using m unfolding E' by (simp only: set_filter set_map) blast
    then obtain y where y: "y \<in> set (events st)" "h' = ?f2 (?f1 y)" by blast
    have "headId y = Some (event_id e)" using hh y(2) hd1[of y] hd2[of "?f1 y"] by simp
    then have "h' = minimizeEvent y" using y(2) head by (auto simp: minimizeEvent_def)
    then show "content h' = None \<and> attachments h' = None \<and> streamIds h' = []"
      by (simp add: minimizeEvent_def)
  qed
  have c3: "length (filter headIdExists ?E') = length (filter headIdExists (events st))"
  proof -
    have "length (filter headIdExists (filter ?F (map (\<lambda>y. ?f2 (?f1 y)) (events st))))
        = length (filter headIdExists (events st))"
      by (rule history_count_preserved)
        (auto simp: headIdExists_def minimizeEvent_def pullStreamIds_def)
    then show ?thesis unfolding E' by (simp add: comp_def)
  qed
  show ?thesis using c1 c2 c3 by blast
qed

lemma live_part_after_detach:
  assumes "\<And>x. headId x = None \<Longrightarrow> G x"
  shows "filter (\<lambda>e. headId e = None)
           (filter (\<lambda>e. \<not> (headId e = None \<and> streamIds e = []))
              (map (\<lambda>e. if headId e = None then pullStreamIds ids e else e) (filter G xs)))
         = map (pullStreamIds ids)
             (filter (\<lambda>e. headId e = None \<and> \<not> set (streamIds e) \<subseteq> set ids) xs)"
proof (induction xs)
  case Nil
  show ?case by simp
next
  case (Cons x xs)
  show ?case
  proof (cases "headId x")
    case None
    have "streamIds (pullStreamIds ids x) = [] \<longleftrightarrow> set (streamIds x) \<subseteq> set ids"
      by (auto simp: pullStreamIds_def filter_empty_conv)
    moreover have "headId (pullStreamIds ids x) = None" using None by (simp add: pullStreamIds_def)
    ultimately show ?thesis using None assms[OF None] Cons.IH by simp
  next
    case (Some a)
    then show ?thesis using Cons.IH by simp
  qed
qed

lemma history_part_after_detach:
  "filter (\<lambda>e. headId e \<noteq> None)
     (filter (\<lambda>e. \<not> (headId e = None \<and> streamIds e = []))
        (map (\<lambda>e. if headId e = None then pullStreamIds ids e else e) (filter G xs)))
   = filter (\<lambda>e. headId e \<noteq> None \<and> G e) xs"
proof (induction xs)
  case Nil
  show ?case by simp
next
  case (Cons x xs)
  show ?case
  proof (cases "headId x")
    case None
    then have "headId (pullStreamIds ids x) = None" by (simp add: pullStreamIds_def)
    then show ?thesis using None Cons.IH by simp
  next
    case (Some a)
    then show ?thesis using Cons.IH by simp
  qed
qed

text \<open>
  C6 (amended). Hard deletion with \<^verbatim>\<open>mergeEventsWithParent\<close> false under
  \<open>keep-nothing\<close> (any mode but the other two), no storage call failing:
  \<^item> a live event all of whose \<open>streamIds\<close> are in the closure is removed, with every one
    of its history rows: its record is gone, no history row points to it and, ids of live
    events being distinct, no live event bears its id any more;
  \<^item> a history row is removed only if it belongs to such an event: the rows of an event
    that keeps a membership outside the closure stay;
  \<^item> the history rows that stay are unchanged (none is minimized);
  \<^item> when a live event is linked to the closure, the live events afterwards are exactly the
    live events that had a membership outside the closure, in their order, each without its
    closure ids, and the history rows are exactly the rows that do not belong to a removed
    event; when none is linked, the collection is unchanged.
\<close>

theorem keep_nothing_removes_history_of_deleted_events:
  assumes "deletionMode cfg \<noteq> ''keep-everything''" and "deletionMode cfg \<noteq> ''keep-authors''"
    and "mergeEventsWithParent p = Some False"
    and "\<forall>call. \<not> storageFails cfg call"
    and "findById (streams st) (params_id p) = Some s"
  shows "(\<forall>e \<in> set (events st).
            headId e = None \<and> streamIds e \<noteq> [] \<and>
            set (streamIds e) \<subseteq> set (collectPluckFromRootItem s) \<longrightarrow>
              e \<notin> set (events (snd (deleteWithData cfg p st))) \<and>
              (\<forall>h' \<in> set (events (snd (deleteWithData cfg p st))).
                  headId h' \<noteq> Some (event_id e))) \<and>
         (\<forall>h \<in> set (events st). headId h \<noteq> None \<longrightarrow>
            (h \<in> set (events (snd (deleteWithData cfg p st))) \<longleftrightarrow>
               \<not> (\<exists>e \<in> set (events st).
                     headId e = None \<and> headId h = Some (event_id e) \<and> streamIds e \<noteq> [] \<and>
                     set (streamIds e) \<subseteq> set (collectPluckFromRootItem s)))) \<and>
         (\<forall>h' \<in> set (events (snd (deleteWithData cfg p st))).
            headId h' \<noteq> None \<longrightarrow> h' \<in> set (events st)) \<and>
         (\<forall>e \<in> set (events st).
            (headId e = None \<and> streamIds e \<noteq> [] \<and>
             set (streamIds e) \<subseteq> set (collectPluckFromRootItem s)) \<and>
            distinct (map event_id (filter (\<lambda>e. headId e = None) (events st))) \<longrightarrow>
              (\<forall>e' \<in> set (events (snd (deleteWithData cfg p st))).
                  headId e' = None \<longrightarrow> event_id e' \<noteq> event_id e)) \<and>
         ((\<exists>e \<in> set (events st). headId e = None \<and>
             (\<exists>x \<in> set (streamIds e). x \<in> set (collectPluckFromRootItem s))) \<longrightarrow>
            filter (\<lambda>e. headId e = None) (events (snd (deleteWithData cfg p st)))
              = map (pullStreamIds (collectPluckFromRootItem s))
                  (filter (\<lambda>e. headId e = None \<and>
                               \<not> set (streamIds e) \<subseteq> set (collectPluckFromRootItem s))
                     (events st)) \<and>
            filter (\<lambda>h. headId h \<noteq> None) (events (snd (deleteWithData cfg p st)))
              = filter (\<lambda>h. headId h \<noteq> None \<and>
                    \<not> (\<exists>e \<in> set (events st).
                          (headId e = None \<and> streamIds e \<noteq> [] \<and>
                           set (streamIds e) \<subseteq> set (collectPluckFromRootItem s)) \<and>
                          headId h = Some (event_id e)))
                  (events st)) \<and>
         (\<not> (\<exists>e \<in> set (events st). headId e = None \<and>
               (\<exists>x \<in> set (streamIds e). x \<in> set (collectPluckFromRootItem s))) \<longrightarrow>
            events (snd (deleteWithData cfg p st)) = events st)"
proof -
  let ?ids = "collectPluckFromRootItem s"
  let ?E = "events st"
  let ?heads = "events_find (streamIdsIn ?ids) ?E"
  let ?full = "\<lambda>e. headId e = None \<and> streamIds e \<noteq> [] \<and> set (streamIds e) \<subseteq> set ?ids"
  let ?G = "\<lambda>y. \<not> (\<exists>e \<in> set ?E. ?full e \<and> headId y = Some (event_id e))"
  let ?f2 = "\<lambda>e. if headId e = None then pullStreamIds ?ids e else e"
  let ?F = "\<lambda>e. \<not> (headId e = None \<and> streamIds e = [])"
  let ?E' = "events (snd (deleteWithData cfg p st))"
  have full_head: "(e \<in> set ?heads \<and> \<not> stillAttached ?ids e) \<longleftrightarrow> (e \<in> set ?E \<and> ?full e)" for e
    using fully_linked_iff[of ?ids e] by (auto simp: events_find_def)
  have Gs: "(\<not> (\<exists>h \<in> set ?heads. \<not> stillAttached ?ids h \<and> headId y = Some (event_id h))) = ?G y"
    for y using full_head by blast
  have run: "?E' = events (snd (handleLinkedEvents cfg p ?ids (parentId s) (?heads \<noteq> []) st))"
    using deleteWithData_events[OF assms(5) _ _ assms(3), of cfg] assms(4) by simp
  have unlinked: "?E' = ?E \<and> \<not> (\<exists>e \<in> set ?E. ?full e) \<and>
      (\<forall>z \<in> set ?E. headId z = None \<longrightarrow> \<not> streamIdsIn ?ids z)" if "?heads = []"
  proof -
    have "\<not> (\<exists>e \<in> set ?E. ?full e)"
      using full_head that by (metis empty_iff list.set(1))
    moreover have "\<forall>z \<in> set ?E. headId z = None \<longrightarrow> \<not> streamIdsIn ?ids z"
      using that by (auto simp: events_find_def filter_empty_conv)
    moreover have "?E' = ?E" using run that by (simp add: handleLinkedEvents_def)
    ultimately show ?thesis by blast
  qed
  have linked: "?E' = filter ?F (map ?f2 (filter ?G ?E))" if "?heads \<noteq> []"
  proof -
    have "?E' = filter ?F (map ?f2 (filter (\<lambda>y. \<not> (\<exists>h \<in> set ?heads. \<not> stillAttached ?ids h \<and>
                     headId y = Some (event_id h))) ?E))"
      using run that detach_keep_nothing_events[OF assms(1-4), of ?ids "parentId s" st] by simp
    then show ?thesis unfolding Gs .
  qed
  have fwd: "\<exists>z \<in> set ?E. ?G z \<and> y = ?f2 z" if "y \<in> set ?E'" for y
  proof (cases "?heads = []")
    case True
    have "?f2 y = y" using unlinked[OF True] that by (auto simp: pullStreamIds_unlinked)
    moreover have "?G y" using unlinked[OF True] by blast
    ultimately show ?thesis using unlinked[OF True] that by metis
  next
    case False
    have "y \<in> ?f2 ` {z \<in> set ?E. ?G z}"
      using that unfolding linked[OF False] by (simp only: set_filter set_map) blast
    then show ?thesis by blast
  qed
  have bwd: "z \<in> set ?E'" if "z \<in> set ?E" "headId z \<noteq> None" "?G z" for z
  proof (cases "?heads = []")
    case True
    then show ?thesis using unlinked that(1) by simp
  next
    case False
    have "?f2 z = z" "?F z" using that(2) by auto
    moreover have "?f2 z \<in> ?f2 ` {z \<in> set ?E. ?G z}" using that(1,3) by blast
    ultimately show ?thesis unfolding linked[OF False] by (simp only: set_filter set_map) simp
  qed
  have hd2: "headId (?f2 y) = headId y" for y by (simp add: pullStreamIds_def)
  have c1: "\<forall>e \<in> set ?E. ?full e \<longrightarrow>
              e \<notin> set ?E' \<and> (\<forall>h' \<in> set ?E'. headId h' \<noteq> Some (event_id e))"
  proof (intro ballI impI conjI)
    fix e assume e: "e \<in> set ?E" and f: "?full e"
    show "e \<notin> set ?E'"
    proof
      assume "e \<in> set ?E'"
      then obtain z where z: "z \<in> set ?E" "e = ?f2 z" using fwd by blast
      have "headId z = None" using f z(2) hd2[of z] by simp
      then have "streamIds e = filter (\<lambda>x. x \<notin> set ?ids) (streamIds z)"
        using z(2) by (simp add: pullStreamIds_def)
      then have "\<forall>x \<in> set (streamIds e). x \<notin> set ?ids" by simp
      then show False using f by (cases "streamIds e") auto
    qed
    fix h' assume h': "h' \<in> set ?E'"
    show "headId h' \<noteq> Some (event_id e)"
    proof
      assume hh: "headId h' = Some (event_id e)"
      obtain z where z: "z \<in> set ?E" "?G z" "h' = ?f2 z" using fwd[OF h'] by blast
      have "headId z = Some (event_id e)" using hh z(3) hd2[of z] by simp
      then show False using z(2) e f by blast
    qed
  qed
  have c2: "\<forall>h \<in> set ?E. headId h \<noteq> None \<longrightarrow>
            (h \<in> set ?E' \<longleftrightarrow> \<not> (\<exists>e \<in> set ?E. headId e = None \<and> headId h = Some (event_id e) \<and>
                 streamIds e \<noteq> [] \<and> set (streamIds e) \<subseteq> set ?ids))"
  proof (intro ballI impI)
    fix h assume h: "h \<in> set ?E" and hh: "headId h \<noteq> None"
    have "h \<in> set ?E' \<longleftrightarrow> ?G h"
    proof
      assume "h \<in> set ?E'"
      then obtain z where z: "z \<in> set ?E" "?G z" "h = ?f2 z" using fwd by blast
      have "headId z \<noteq> None" using hh z(3) hd2[of z] by simp
      then have "h = z" using z(3) by auto
      then show "?G h" using z(2) by simp
    next
      assume "?G h"
      then show "h \<in> set ?E'" using bwd[OF h hh] by simp
    qed
    then show "h \<in> set ?E' \<longleftrightarrow> \<not> (\<exists>e \<in> set ?E. headId e = None \<and> headId h = Some (event_id e) \<and>
                 streamIds e \<noteq> [] \<and> set (streamIds e) \<subseteq> set ?ids)"
      by blast
  qed
  have c3: "\<forall>h' \<in> set ?E'. headId h' \<noteq> None \<longrightarrow> h' \<in> set ?E"
  proof (intro ballI impI)
    fix h' assume h': "h' \<in> set ?E'" and hh: "headId h' \<noteq> None"
    obtain z where z: "z \<in> set ?E" "h' = ?f2 z" using fwd[OF h'] by blast
    have "headId z \<noteq> None" using hh z(2) hd2[of z] by simp
    then show "h' \<in> set ?E" using z by auto
  qed
  let ?some = "\<exists>e \<in> set ?E. headId e = None \<and> (\<exists>x \<in> set (streamIds e). x \<in> set ?ids)"
  have some_iff: "?some \<longleftrightarrow> ?heads \<noteq> []" using linked_iff[of ?ids ?E] by simp
  have c5: "?some \<longrightarrow>
      filter (\<lambda>e. headId e = None) ?E'
        = map (pullStreamIds ?ids)
            (filter (\<lambda>e. headId e = None \<and> \<not> set (streamIds e) \<subseteq> set ?ids) ?E) \<and>
      filter (\<lambda>h. headId h \<noteq> None) ?E' = filter (\<lambda>h. headId h \<noteq> None \<and> ?G h) ?E"
  proof
    assume ?some
    then have ne: "?heads \<noteq> []" using some_iff by simp
    have liveG: "\<And>x. headId x = None \<Longrightarrow> ?G x" by simp
    show "filter (\<lambda>e. headId e = None) ?E'
        = map (pullStreamIds ?ids)
            (filter (\<lambda>e. headId e = None \<and> \<not> set (streamIds e) \<subseteq> set ?ids) ?E) \<and>
      filter (\<lambda>h. headId h \<noteq> None) ?E' = filter (\<lambda>h. headId h \<noteq> None \<and> ?G h) ?E"
      unfolding linked[OF ne]
      using live_part_after_detach[where G = ?G and ids = ?ids and xs = ?E, OF liveG]
        history_part_after_detach[where G = ?G and ids = ?ids and xs = ?E]
      by blast
  qed
  have c6: "\<not> ?some \<longrightarrow> ?E' = ?E" using some_iff unlinked by blast
  have c4: "\<forall>e \<in> set ?E. ?full e \<and>
      distinct (map event_id (filter (\<lambda>e. headId e = None) ?E)) \<longrightarrow>
        (\<forall>e' \<in> set ?E'. headId e' = None \<longrightarrow> event_id e' \<noteq> event_id e)"
  proof (intro ballI impI)
    fix e e'
    assume e: "e \<in> set ?E"
      and fd: "?full e \<and> distinct (map event_id (filter (\<lambda>e. headId e = None) ?E))"
      and e': "e' \<in> set ?E'" and live': "headId e' = None"
    have "?some"
    proof -
      obtain x where "x \<in> set (streamIds e)" using fd by (cases "streamIds e") auto
      then show ?thesis using e fd by blast
    qed
    then have eq: "filter (\<lambda>e. headId e = None) ?E'
        = map (pullStreamIds ?ids)
            (filter (\<lambda>e. headId e = None \<and> \<not> set (streamIds e) \<subseteq> set ?ids) ?E)"
      using c5 by blast
    have "e' \<in> set (filter (\<lambda>e. headId e = None) ?E')" using e' live' by simp
    then obtain e0 where e0: "e0 \<in> set ?E" "headId e0 = None"
      "\<not> set (streamIds e0) \<subseteq> set ?ids" "e' = pullStreamIds ?ids e0"
      unfolding eq by auto
    have id0: "event_id e' = event_id e0" using e0(4) by (simp add: pullStreamIds_def)
    show "event_id e' \<noteq> event_id e"
    proof
      assume "event_id e' = event_id e"
      then have same: "event_id e0 = event_id e" using id0 by simp
      have inj: "inj_on event_id (set (filter (\<lambda>e. headId e = None) ?E))"
        using fd by (simp add: distinct_map)
      have "e0 \<in> set (filter (\<lambda>e. headId e = None) ?E)" using e0(1,2) by simp
      moreover have "e \<in> set (filter (\<lambda>e. headId e = None) ?E)" using e fd by simp
      ultimately have "e0 = e" using inj same by (auto dest: inj_onD)
      then show False using e0(3) fd by simp
    qed
  qed
  show ?thesis using c1 c2 c3 c4 c5 c6 by blast
qed

theorem keep_authors_minimizes_history_witness:
  "deletionMode (mkSettings False ''keep-authors'') = ''keep-authors'' \<and>
   findById (treeAB True) ''A/B'' = Some (streamAB True) \<and>
   ''A/B'' \<in> set (streamIds (mkEvent ''e1'' [''A/B'', ''A''] None None)) \<and>
   ''A/B'' \<in> set (collectPluckFromRootItem (streamAB True)) \<and>
   headId (mkEvent ''h1'' [''A/B''] (Some ''e1'') None)
     = Some (event_id (mkEvent ''e1'' [''A/B'', ''A''] None None)) \<and>
   events (snd (deleteWithData (mkSettings False ''keep-authors'')
     \<lparr>params_id = ''A/B'', mergeEventsWithParent = Some False\<rparr>
     (mkStorage (treeAB True)
        [mkEvent ''e1'' [''A/B'', ''A''] None None, mkEvent ''h1'' [''A/B''] (Some ''e1'') None])))
   = [mkEvent ''e1'' [''A''] None None,
      \<lparr>event_id = ''h1'', streamIds = [], headId = Some ''e1'', attachments = None,
       content = None, modified = Some 1, modifiedBy = Some ''author''\<rparr>] \<and>
   length (filter headIdExists (events (snd (deleteWithData (mkSettings False ''keep-authors'')
     \<lparr>params_id = ''A/B'', mergeEventsWithParent = Some False\<rparr>
     (mkStorage (treeAB True)
        [mkEvent ''e1'' [''A/B'', ''A''] None None, mkEvent ''h1'' [''A/B''] (Some ''e1'') None])))))
   = 1"
proof -
  let ?cfg = "mkSettings False ''keep-authors''"
  let ?p = "\<lparr>params_id = ''A/B'', mergeEventsWithParent = Some False\<rparr>"
  let ?e = "mkEvent ''e1'' [''A/B'', ''A''] None None"
  let ?h = "mkEvent ''h1'' [''A/B''] (Some ''e1'') None"
  let ?st = "mkStorage (treeAB True) [?e, ?h]"
  have h1: "deletionMode ?cfg = ''keep-authors''" by (simp add: mkSettings_def)
  have h2: "mergeEventsWithParent ?p = Some False" by simp
  have h3: "\<forall>call. \<not> storageFails ?cfg call" by (simp add: mkSettings_def)
  have f: "findById (treeAB True) ''A/B'' = Some (streamAB True)" by (simp add: example_defs)
  have h4: "findById (streams ?st) (params_id ?p) = Some (streamAB True)"
    using f by (simp add: mkStorage_def)
  have h5: "?e \<in> set (events ?st)" by (simp add: mkStorage_def)
  have h6: "headId ?e = None" by (simp add: mkEvent_def)
  have h7: "''A/B'' \<in> set (streamIds ?e)" by (simp add: mkEvent_def)
  have h8: "''A/B'' \<in> set (collectPluckFromRootItem (streamAB True))" by (simp add: streamAB_def)
  have h9: "?h \<in> set (events ?st)" by (simp add: mkStorage_def)
  have h10: "headId ?h = Some (event_id ?e)" by (simp add: mkEvent_def)
  have "length (filter headIdExists (events (snd (deleteWithData ?cfg ?p ?st))))
      = length (filter headIdExists (events ?st))"
    using keep_authors_minimizes_history[OF h1 h2 h3 h4 h5 h6 h7 h8 h9 h10] by blast
  then have n: "length (filter headIdExists (events (snd (deleteWithData ?cfg ?p ?st)))) = 1"
    by (simp add: mkStorage_def mkEvent_def headIdExists_def)
  have run: "events (snd (deleteWithData ?cfg ?p ?st))
     = [mkEvent ''e1'' [''A''] None None,
        \<lparr>event_id = ''h1'', streamIds = [], headId = Some ''e1'', attachments = None,
         content = None, modified = Some 1, modifiedBy = Some ''author''\<rparr>]"
    by (simp add: step_defs example_defs)
  show ?thesis using h1 f h7 h8 h10 run n by blast
qed

theorem keep_nothing_removes_history_of_deleted_events_witness:
  "deletionMode (mkSettings False ''keep-nothing'') \<noteq> ''keep-everything'' \<and>
   deletionMode (mkSettings False ''keep-nothing'') \<noteq> ''keep-authors'' \<and>
   findById (treeAB True) ''A/B'' = Some (streamAB True) \<and>
   set (streamIds (mkEvent ''e3'' [''A/B''] None None))
     \<subseteq> set (collectPluckFromRootItem (streamAB True)) \<and>
   mkEvent ''e3'' [''A/B''] None None \<notin> set (events (snd (deleteWithData
     (mkSettings False ''keep-nothing'')
     \<lparr>params_id = ''A/B'', mergeEventsWithParent = Some False\<rparr>
     (mkStorage (treeAB True)
        [mkEvent ''e3'' [''A/B''] None None, mkEvent ''h3'' [''A/B''] (Some ''e3'') None])))) \<and>
   filter (\<lambda>e. headId e = None) (events (snd (deleteWithData
     (mkSettings False ''keep-nothing'')
     \<lparr>params_id = ''A/B'', mergeEventsWithParent = Some False\<rparr>
     (mkStorage (treeAB True)
        [mkEvent ''e3'' [''A/B''] None None, mkEvent ''h3'' [''A/B''] (Some ''e3'') None]))))
     = [] \<and>
   deleteWithData (mkSettings False ''keep-nothing'')
     \<lparr>params_id = ''A/B'', mergeEventsWithParent = Some False\<rparr>
     (mkStorage (treeAB True)
        [mkEvent ''e3'' [''A/B''] None None, mkEvent ''h3'' [''A/B''] (Some ''e3'') None])
   = (Inr (ResultStreamDeletion ''A/B''),
      \<lparr>streams = [Stream ''A'' None None []], events = [], eventFiles = [], errorLog = [],
       notifications = [USERNAME_BASED_EVENTS_CHANGED, USERNAME_BASED_STREAMS_CHANGED]\<rparr>)"
proof -
  let ?cfg = "mkSettings False ''keep-nothing''"
  let ?p = "\<lparr>params_id = ''A/B'', mergeEventsWithParent = Some False\<rparr>"
  let ?e = "mkEvent ''e3'' [''A/B''] None None"
  let ?h = "mkEvent ''h3'' [''A/B''] (Some ''e3'') None"
  let ?st = "mkStorage (treeAB True) [?e, ?h]"
  have h1: "deletionMode ?cfg \<noteq> ''keep-everything''" by (simp add: mkSettings_def)
  have h2: "deletionMode ?cfg \<noteq> ''keep-authors''" by (simp add: mkSettings_def)
  have h3: "mergeEventsWithParent ?p = Some False" by simp
  have h4: "\<forall>call. \<not> storageFails ?cfg call" by (simp add: mkSettings_def)
  have f: "findById (treeAB True) ''A/B'' = Some (streamAB True)" by (simp add: example_defs)
  have h5: "findById (streams ?st) (params_id ?p) = Some (streamAB True)"
    using f by (simp add: mkStorage_def)
  have m: "?e \<in> set (events ?st)" by (simp add: mkStorage_def)
  have full: "headId ?e = None \<and> streamIds ?e \<noteq> [] \<and>
      set (streamIds ?e) \<subseteq> set (collectPluckFromRootItem (streamAB True))"
    by (simp add: mkEvent_def streamAB_def)
  have gone: "?e \<notin> set (events (snd (deleteWithData ?cfg ?p ?st)))"
    using keep_nothing_removes_history_of_deleted_events[OF h1 h2 h3 h4 h5] m full by blast
  have some: "\<exists>e \<in> set (events ?st). headId e = None \<and>
      (\<exists>x \<in> set (streamIds e). x \<in> set (collectPluckFromRootItem (streamAB True)))"
    using m full by (cases "streamIds ?e") auto
  have "filter (\<lambda>e. headId e = None) (events (snd (deleteWithData ?cfg ?p ?st)))
      = map (pullStreamIds (collectPluckFromRootItem (streamAB True)))
          (filter (\<lambda>e. headId e = None \<and>
                       \<not> set (streamIds e) \<subseteq> set (collectPluckFromRootItem (streamAB True)))
             (events ?st))"
    using keep_nothing_removes_history_of_deleted_events[OF h1 h2 h3 h4 h5] some by blast
  then have nolive: "filter (\<lambda>e. headId e = None) (events (snd (deleteWithData ?cfg ?p ?st))) = []"
    by (simp add: mkStorage_def mkEvent_def streamAB_def)
  have run: "deleteWithData ?cfg ?p ?st
   = (Inr (ResultStreamDeletion ''A/B''),
      \<lparr>streams = [Stream ''A'' None None []], events = [], eventFiles = [], errorLog = [],
       notifications = [USERNAME_BASED_EVENTS_CHANGED, USERNAME_BASED_STREAMS_CHANGED]\<rparr>)"
    by (simp add: step_defs example_defs)
  show ?thesis using h1 h2 f full gone nolive run by blast
qed

theorem keep_nothing_keeps_history_of_surviving_event:
  "\<not> stillAttached [''A/B''] (mkEvent ''e3'' [''A/B''] None None) \<and>
   stillAttached [''A/B''] (mkEvent ''e1'' [''A/B'', ''A''] None None) \<and>
   events (snd (deleteStream (mkSettings False ''keep-nothing'') \<lparr>ctx_stream = streamAB True\<rparr>
     \<lparr>params_id = ''A/B'', mergeEventsWithParent = Some False\<rparr>
     (mkStorage (treeAB True)
        [mkEvent ''e1'' [''A/B'', ''A''] None None, mkEvent ''h1'' [''A/B''] (Some ''e1'') None])))
   = [mkEvent ''e1'' [''A''] None None, mkEvent ''h1'' [''A/B''] (Some ''e1'') None]"
  by (simp add: deleteStream_def step_defs example_defs)

subsection \<open>Removal of attachments\<close>

lemma series_sim:
  assumes "list_all2 (\<lambda>f g. \<forall>a b. sameCollections a b \<longrightarrow>
             rel_sum (=) sameCollections (f a) (g b)) fs gs"
    and "sameCollections a b"
  shows "fst (series fs a) = fst (series gs b) \<and>
         sameCollections (snd (series fs a)) (snd (series gs b))"
  using assms
proof (induction fs gs arbitrary: a b rule: list_all2_induct)
  case Nil
  then show ?case by simp
next
  case (Cons f fs g gs)
  have r: "rel_sum (=) sameCollections (f a) (g b)" using Cons.hyps(1) Cons.prems by blast
  show ?case
  proof (cases "f a")
    case (Inl e)
    then have "g b = Inl e" using r by (cases "g b") auto
    then show ?thesis using Inl Cons.prems by simp
  next
    case (Inr a')
    then obtain b' where b': "g b = Inr b'" "sameCollections a' b'"
      using r by (cases "g b") auto
    then show ?thesis using Inr Cons.IH[OF b'(2)] by simp
  qed
qed

lemma foldl_versions_sim:
  assumes "sameCollections a b"
  shows "sameCollections
           (foldl (\<lambda>s e. s\<lparr>events := events s @ [eventToVersion cfg s e]\<rparr>) a xs)
           (foldl (\<lambda>s e. s\<lparr>events := events s @ [eventToVersion (cfg\<lparr>removeAllForEventFails := g\<rparr>) s e]\<rparr>) b xs)"
  using assms
proof (induction xs arbitrary: a b)
  case Nil
  then show ?case by simp
next
  case (Cons x xs)
  have "sameCollections (a\<lparr>events := events a @ [eventToVersion cfg a x]\<rparr>)
          (b\<lparr>events := events b @ [eventToVersion (cfg\<lparr>removeAllForEventFails := g\<rparr>) b x]\<rparr>)"
    using Cons.prems by (simp add: sameCollections_def eventToVersion_def)
  then show ?case using Cons.IH by simp
qed

lemma generateLogIfNecessary_sim:
  "sameCollections a b \<Longrightarrow>
   rel_sum (=) sameCollections (generateLogIfNecessary cfg ids a)
     (generateLogIfNecessary (cfg\<lparr>removeAllForEventFails := g\<rparr>) ids b)"
  using foldl_versions_sim[where a = a and b = b and cfg = cfg and g = g
      and xs = "events_find (streamIdsIn ids) (events a)"]
  by (simp add: generateLogIfNecessary_def) (simp add: sameCollections_def)

lemma addParentStreamIdIfNeeded_sim:
  "sameCollections a b \<Longrightarrow>
   rel_sum (=) sameCollections (addParentStreamIdIfNeeded cfg ids parent a)
     (addParentStreamIdIfNeeded (cfg\<lparr>removeAllForEventFails := g\<rparr>) ids parent b)"
  by (simp add: addParentStreamIdIfNeeded_def sameCollections_def)

lemma removeStreamdIds_sim:
  "sameCollections a b \<Longrightarrow>
   rel_sum (=) sameCollections (removeStreamdIds cfg ids a)
     (removeStreamdIds (cfg\<lparr>removeAllForEventFails := g\<rparr>) ids b)"
  by (simp add: removeStreamdIds_def sameCollections_def)

lemma handleHistory_sim:
  "sameCollections a b \<Longrightarrow>
   rel_sum (=) sameCollections (handleHistory cfg ids a)
     (handleHistory (cfg\<lparr>removeAllForEventFails := g\<rparr>) ids b)"
  by (simp add: handleHistory_def sameCollections_def)

lemma removals_keep_collections:
  "sameCollections
     (foldl (\<lambda>s e. if skip e then s else removeAllForEvent cfg s (event_id e)) a xs) a"
proof -
  let ?F = "\<lambda>s e. if skip e then s else removeAllForEvent cfg s (event_id e)"
  have "streams (foldl ?F a xs) = streams a"
    by (rule foldl_preserves) (simp add: removeAllForEvent_def)
  moreover have "events (foldl ?F a xs) = events a"
    by (rule foldl_preserves) (simp add: removeAllForEvent_def)
  moreover have "notifications (foldl ?F a xs) = notifications a"
    by (rule foldl_preserves) (simp add: removeAllForEvent_def)
  ultimately show ?thesis by (simp add: sameCollections_def)
qed

lemma deleteEventsWithAttachments_sim:
  assumes "sameCollections a b"
  shows "rel_sum (=) sameCollections (deleteEventsWithAttachments cfg ids a)
     (deleteEventsWithAttachments (cfg\<lparr>removeAllForEventFails := g\<rparr>) ids b)"
proof -
  have "sameCollections
     (foldl (\<lambda>s e. if stillAttached ids e then s else removeAllForEvent cfg s (event_id e)) a xs)
     (foldl (\<lambda>s e. if stillAttached ids e then s
                    else removeAllForEvent (cfg\<lparr>removeAllForEventFails := g\<rparr>) s (event_id e)) b ys)"
    for xs ys
    using removals_keep_collections[of "stillAttached ids" cfg a xs]
      removals_keep_collections[of "stillAttached ids" "cfg\<lparr>removeAllForEventFails := g\<rparr>" b ys]
      assms
    by (simp add: sameCollections_def)
  then show ?thesis by (simp add: deleteEventsWithAttachments_def)
qed

lemma removeStreamdIdsFromAllEvents_sim:
  "sameCollections a b \<Longrightarrow>
   rel_sum (=) sameCollections (removeStreamdIdsFromAllEvents cfg ids a)
     (removeStreamdIdsFromAllEvents (cfg\<lparr>removeAllForEventFails := g\<rparr>) ids b)"
  by (simp add: removeStreamdIdsFromAllEvents_def sameCollections_def)

lemma deleteEvents_sim:
  "sameCollections a b \<Longrightarrow>
   rel_sum (=) sameCollections (deleteEvents cfg ids a)
     (deleteEvents (cfg\<lparr>removeAllForEventFails := g\<rparr>) ids b)"
proof -
  have "deleteEventsFilter (cfg\<lparr>removeAllForEventFails := g\<rparr>) ids = deleteEventsFilter cfg ids"
    by (rule ext) (simp add: deleteEventsFilter_def)
  then show "sameCollections a b \<Longrightarrow>
   rel_sum (=) sameCollections (deleteEvents cfg ids a)
     (deleteEvents (cfg\<lparr>removeAllForEventFails := g\<rparr>) ids b)"
    by (simp add: deleteEvents_def sameCollections_def)
qed

lemma handleLinkedEvents_sim:
  assumes "sameCollections a b"
  shows "fst (handleLinkedEvents cfg p ids pid linked a)
           = fst (handleLinkedEvents (cfg\<lparr>removeAllForEventFails := g\<rparr>) p ids pid linked b) \<and>
         sameCollections (snd (handleLinkedEvents cfg p ids pid linked a))
           (snd (handleLinkedEvents (cfg\<lparr>removeAllForEventFails := g\<rparr>) p ids pid linked b))"
proof -
  let ?cfg' = "cfg\<lparr>removeAllForEventFails := g\<rparr>"
  have m: "fst (series [generateLogIfNecessary cfg ids, addParentStreamIdIfNeeded cfg ids parent,
                        removeStreamdIds cfg ids] a)
         = fst (series [generateLogIfNecessary ?cfg' ids, addParentStreamIdIfNeeded ?cfg' ids parent,
                        removeStreamdIds ?cfg' ids] b) \<and>
      sameCollections
        (snd (series [generateLogIfNecessary cfg ids, addParentStreamIdIfNeeded cfg ids parent,
                        removeStreamdIds cfg ids] a))
        (snd (series [generateLogIfNecessary ?cfg' ids, addParentStreamIdIfNeeded ?cfg' ids parent,
                        removeStreamdIds ?cfg' ids] b))" for parent
    by (rule series_sim[OF _ assms])
      (simp add: generateLogIfNecessary_sim addParentStreamIdIfNeeded_sim removeStreamdIds_sim)
  have d: "fst (series [handleHistory cfg ids, deleteEventsWithAttachments cfg ids,
                        removeStreamdIdsFromAllEvents cfg ids, deleteEvents cfg ids] a)
         = fst (series [handleHistory ?cfg' ids, deleteEventsWithAttachments ?cfg' ids,
                        removeStreamdIdsFromAllEvents ?cfg' ids, deleteEvents ?cfg' ids] b) \<and>
      sameCollections
        (snd (series [handleHistory cfg ids, deleteEventsWithAttachments cfg ids,
                        removeStreamdIdsFromAllEvents cfg ids, deleteEvents cfg ids] a))
        (snd (series [handleHistory ?cfg' ids, deleteEventsWithAttachments ?cfg' ids,
                        removeStreamdIdsFromAllEvents ?cfg' ids, deleteEvents ?cfg' ids] b))"
    by (rule series_sim[OF _ assms])
      (simp add: handleHistory_sim deleteEventsWithAttachments_sim
        removeStreamdIdsFromAllEvents_sim deleteEvents_sim)
  show ?thesis
    using m d assms by (simp add: handleLinkedEvents_def split: option.splits)
qed

lemma deleteWithData_sim:
  "fst (deleteWithData (cfg\<lparr>removeAllForEventFails := g\<rparr>) p st) = fst (deleteWithData cfg p st) \<and>
   sameCollections (snd (deleteWithData (cfg\<lparr>removeAllForEventFails := g\<rparr>) p st))
     (snd (deleteWithData cfg p st))"
proof -
  let ?cfg' = "cfg\<lparr>removeAllForEventFails := g\<rparr>"
  have refl: "sameCollections st st" by (simp add: sameCollections_def)
  have ret: "retrieveStreamIdsToDelete ?cfg' p st = retrieveStreamIdsToDelete cfg p st"
    by (simp add: retrieveStreamIdsToDelete_def)
  have chk: "checkIfRootStreamAndLinkedEventsExist ?cfg' p ids pid st
      = checkIfRootStreamAndLinkedEventsExist cfg p ids pid st" for ids pid
    by (simp add: checkIfRootStreamAndLinkedEventsExist_def)
  have del: "sameCollections a b \<Longrightarrow>
      fst (deleteStreams ?cfg' p ids b) = fst (deleteStreams cfg p ids a) \<and>
      sameCollections (snd (deleteStreams ?cfg' p ids b)) (snd (deleteStreams cfg p ids a))"
    for a b ids
    by (simp add: deleteStreams_def sameCollections_def)
  show ?thesis
  proof (cases "retrieveStreamIdsToDelete cfg p st")
    case (Inl e)
    then show ?thesis using ret refl by (simp add: deleteWithData_def)
  next
    case (Inr r)
    obtain ids pid where r: "r = (ids, pid)" by (cases r)
    show ?thesis
    proof (cases "checkIfRootStreamAndLinkedEventsExist cfg p ids pid st")
      case (Inl e)
      then show ?thesis using ret chk Inr r refl by (simp add: deleteWithData_def)
    next
      case (Inr linked)
      obtain e1 s1 where h1: "handleLinkedEvents cfg p ids pid linked st = (e1, s1)"
        by (cases "handleLinkedEvents cfg p ids pid linked st")
      obtain e2 s2 where h2: "handleLinkedEvents ?cfg' p ids pid linked st = (e2, s2)"
        by (cases "handleLinkedEvents ?cfg' p ids pid linked st")
      have same: "e1 = e2 \<and> sameCollections s1 s2"
        using handleLinkedEvents_sim[OF refl, of cfg p ids pid linked g] h1 h2 by simp
      show ?thesis
      proof (cases e1)
        case None
        then show ?thesis
          using ret chk \<open>retrieveStreamIdsToDelete cfg p st = Inr r\<close> r Inr h1 h2 same
            del[of s1 s2 ids]
          by (simp add: deleteWithData_def)
      next
        case (Some e)
        then show ?thesis
          using ret chk \<open>retrieveStreamIdsToDelete cfg p st = Inr r\<close> r Inr h1 h2 same
          by (simp add: deleteWithData_def sameCollections_def)
      qed
    qed
  qed
qed

lemma removals_log_grows:
  "set (errorLog s)
     \<subseteq> set (errorLog (foldl (\<lambda>s e. if skip e then s else removeAllForEvent cfg s (event_id e)) s xs))"
proof (induction xs arbitrary: s)
  case Nil
  show ?case by simp
next
  case (Cons x xs)
  let ?F = "\<lambda>s e. if skip e then s else removeAllForEvent cfg s (event_id e)"
  have step: "foldl ?F s (x # xs) = foldl ?F (?F s x) xs" by simp
  have "set (errorLog s) \<subseteq> set (errorLog (?F s x))"
    by (auto simp: removeAllForEvent_def)
  also have "\<dots> \<subseteq> set (errorLog (foldl ?F (?F s x) xs))" by (rule Cons.IH)
  finally show ?case unfolding step .
qed

lemma removals_files_shrink:
  "set (eventFiles (foldl (\<lambda>s e. if skip e then s else removeAllForEvent cfg s (event_id e)) s xs))
     \<subseteq> set (eventFiles s)"
proof (induction xs arbitrary: s)
  case Nil
  show ?case by simp
next
  case (Cons x xs)
  let ?F = "\<lambda>s e. if skip e then s else removeAllForEvent cfg s (event_id e)"
  have step: "foldl ?F s (x # xs) = foldl ?F (?F s x) xs" by simp
  have "set (eventFiles (foldl ?F (?F s x) xs)) \<subseteq> set (eventFiles (?F s x))" by (rule Cons.IH)
  also have "\<dots> \<subseteq> set (eventFiles s)"
    by (auto simp: removeAllForEvent_def)
  finally show ?case unfolding step .
qed

lemma removals_logged:
  assumes "x \<in> set xs" and "\<not> skip x" and "removeAllForEventFails cfg (event_id x)"
  shows "event_id x
     \<in> set (errorLog (foldl (\<lambda>s e. if skip e then s else removeAllForEvent cfg s (event_id e)) s xs))"
  using assms(1)
proof (induction xs arbitrary: s)
  case Nil
  then show ?case by simp
next
  case (Cons y ys)
  show ?case
  proof (cases "x = y")
    case True
    have "event_id x \<in> set (errorLog (removeAllForEvent cfg s (event_id x)))"
      using assms(3) by (simp add: removeAllForEvent_def)
    then show ?thesis
      using True assms(2) removals_log_grows[where s = "removeAllForEvent cfg s (event_id x)" and skip = skip
          and cfg = cfg and xs = ys]
      by auto
  next
    case False
    then have "x \<in> set ys" using Cons.prems by simp
    then show ?thesis using Cons.IH by simp
  qed
qed

lemma removals_removed:
  assumes "x \<in> set xs" and "\<not> skip x" and "\<not> removeAllForEventFails cfg (event_id x)"
  shows "event_id x
     \<notin> set (eventFiles (foldl (\<lambda>s e. if skip e then s else removeAllForEvent cfg s (event_id e)) s xs))"
  using assms(1)
proof (induction xs arbitrary: s)
  case Nil
  then show ?case by simp
next
  case (Cons y ys)
  show ?case
  proof (cases "x = y")
    case True
    have "event_id x \<notin> set (eventFiles (removeAllForEvent cfg s (event_id x)))"
      using assms(3) by (simp add: removeAllForEvent_def)
    then show ?thesis
      using True assms(2) removals_files_shrink[where s = "removeAllForEvent cfg s (event_id x)" and skip = skip
          and cfg = cfg and xs = ys]
      by auto
  next
    case False
    then have "x \<in> set ys" using Cons.prems by simp
    then show ?thesis using Cons.IH by simp
  qed
qed

lemma handleHistory_keeps_live:
  assumes "handleHistory cfg ids st = Inr st1" and "e \<in> set (events st)" and "headId e = None"
  shows "e \<in> set (events st1) \<and> eventFiles st1 = eventFiles st \<and> errorLog st1 = errorLog st"
proof -
  let ?heads = "events_find (streamIdsIn ids) (events st)"
  let ?f1 = "\<lambda>e. if \<exists>h \<in> set ?heads. headId e = Some (event_id h) then minimizeEvent e else e"
  let ?G = "\<lambda>e. \<not> (\<exists>h \<in> set ?heads. \<not> stillAttached ids h \<and> headId e = Some (event_id h))"
  show ?thesis
  proof (cases "deletionMode cfg = ''keep-everything''")
    case True
    then have "st1 = st" using assms(1) by (simp add: handleHistory_def)
    then show ?thesis using assms(2) by simp
  next
    case False
    note not_everything = False
    show ?thesis
    proof (cases "deletionMode cfg = ''keep-authors''")
      case True
      have ok: "\<not> storageFails cfg HandleHistory"
        using assms(1) True by (auto simp: handleHistory_def split: if_splits)
      have st1: "st1 = st\<lparr>events := map ?f1 (events st)\<rparr>"
        using assms(1) True ok by (simp add: handleHistory_def minimize_fold)
      have "e \<in> ?f1 ` set (events st)"
        by (rule rev_image_eqI[OF assms(2)]) (simp add: assms(3))
      then show ?thesis unfolding st1 by simp
    next
      case False
      have ok: "\<not> storageFails cfg HandleHistory"
        using assms(1) False not_everything by (auto simp: handleHistory_def split: if_splits)
      have st1: "st1 = st\<lparr>events := filter ?G (events st)\<rparr>"
        using assms(1) False not_everything ok by (simp add: handleHistory_def removeMany_fold)
      have "?G e" using assms(3) by simp
      then show ?thesis unfolding st1 using assms(2) by simp
    qed
  qed
qed

lemma later_steps_keep_files:
  "eventFiles (snd (series [removeStreamdIdsFromAllEvents cfg ids, deleteEvents cfg ids] s))
     = eventFiles s \<and>
   errorLog (snd (series [removeStreamdIdsFromAllEvents cfg ids, deleteEvents cfg ids] s))
     = errorLog s"
proof -
  have "eventFiles (snd (series [removeStreamdIdsFromAllEvents cfg ids, deleteEvents cfg ids] s))
     = eventFiles s"
    by (rule series_preserves)
      (auto simp: removeStreamdIdsFromAllEvents_def deleteEvents_def split: if_splits)
  moreover have
    "errorLog (snd (series [removeStreamdIdsFromAllEvents cfg ids, deleteEvents cfg ids] s))
     = errorLog s"
    by (rule series_preserves)
      (auto simp: removeStreamdIdsFromAllEvents_def deleteEvents_def split: if_splits)
  ultimately show ?thesis by simp
qed

lemma deleteStreams_files:
  "eventFiles (snd (deleteStreams cfg p ids s)) = eventFiles s \<and>
   errorLog (snd (deleteStreams cfg p ids s)) = errorLog s"
  by (simp add: deleteStreams_def)

text \<open>
  Whatever \<^verbatim>\<open>removeAllForEvent\<close> does, the hard deletion has the same outcome: with
  any other behaviour \<open>g\<close> of the removal (none failing, say) the result of the method, the
  stream tree, the events and the notifications are those obtained with the settings'
  own. So a failing removal never becomes the error of the method and never stops the steps
  after it.
  On the detach path, once the steps before \<open>deleteEventsWithAttachments\<close> and its read
  have succeeded, the removal is called for every live event with attachments whose
  \<open>streamIds\<close> are all in the closure: if the call fails the event's id is in the error
  log, otherwise no file of the event is left.
\<close>

lemma attachment_removal_failure_is_only_logged:
  "fst (deleteWithData (cfg\<lparr>removeAllForEventFails := g\<rparr>) p st) = fst (deleteWithData cfg p st) \<and>
   streams (snd (deleteWithData (cfg\<lparr>removeAllForEventFails := g\<rparr>) p st))
     = streams (snd (deleteWithData cfg p st)) \<and>
   events (snd (deleteWithData (cfg\<lparr>removeAllForEventFails := g\<rparr>) p st))
     = events (snd (deleteWithData cfg p st)) \<and>
   notifications (snd (deleteWithData (cfg\<lparr>removeAllForEventFails := g\<rparr>) p st))
     = notifications (snd (deleteWithData cfg p st)) \<and>
   (mergeEventsWithParent p = Some False \<and>
    findById (streams st) (params_id p) = Some s \<and>
    \<not> storageFails cfg RetrieveStreamIdsToDelete \<and>
    \<not> storageFails cfg CheckIfRootStreamAndLinkedEventsExist \<and>
    \<not> storageFails cfg HandleHistory \<and>
    \<not> storageFails cfg DeleteEventsWithAttachments \<and>
    e \<in> set (events st) \<and> headId e = None \<and> attachments e \<noteq> None \<and>
    streamIds e \<noteq> [] \<and> set (streamIds e) \<subseteq> set (collectPluckFromRootItem s) \<longrightarrow>
      (if removeAllForEventFails cfg (event_id e)
       then event_id e \<in> set (errorLog (snd (deleteWithData cfg p st)))
       else event_id e \<notin> set (eventFiles (snd (deleteWithData cfg p st)))))"
proof -
  have iso: "fst (deleteWithData (cfg\<lparr>removeAllForEventFails := g\<rparr>) p st)
        = fst (deleteWithData cfg p st) \<and>
      streams (snd (deleteWithData (cfg\<lparr>removeAllForEventFails := g\<rparr>) p st))
        = streams (snd (deleteWithData cfg p st)) \<and>
      events (snd (deleteWithData (cfg\<lparr>removeAllForEventFails := g\<rparr>) p st))
        = events (snd (deleteWithData cfg p st)) \<and>
      notifications (snd (deleteWithData (cfg\<lparr>removeAllForEventFails := g\<rparr>) p st))
        = notifications (snd (deleteWithData cfg p st))"
    using deleteWithData_sim[where cfg = cfg and g = g and p = p and st = st]
    by (simp add: sameCollections_def)
  have inv: "if removeAllForEventFails cfg (event_id e)
       then event_id e \<in> set (errorLog (snd (deleteWithData cfg p st)))
       else event_id e \<notin> set (eventFiles (snd (deleteWithData cfg p st)))"
    if m: "mergeEventsWithParent p = Some False"
      and f: "findById (streams st) (params_id p) = Some s"
      and ok1: "\<not> storageFails cfg RetrieveStreamIdsToDelete"
      and ok2: "\<not> storageFails cfg CheckIfRootStreamAndLinkedEventsExist"
      and ok3: "\<not> storageFails cfg HandleHistory"
      and ok4: "\<not> storageFails cfg DeleteEventsWithAttachments"
      and e: "e \<in> set (events st)" and live: "headId e = None" and att: "attachments e \<noteq> None"
      and full: "streamIds e \<noteq> []" "set (streamIds e) \<subseteq> set (collectPluckFromRootItem s)"
  proof -
    let ?ids = "collectPluckFromRootItem s"
    let ?F = "\<lambda>s e. if stillAttached ?ids e then s else removeAllForEvent cfg s (event_id e)"
    have sel: "streamIdsIn ?ids e \<and> \<not> stillAttached ?ids e"
      using fully_linked_iff[of ?ids e] full by blast
    then have linked: "events_find (streamIdsIn ?ids) (events st) \<noteq> []"
      using e live by (auto simp: events_find_def filter_empty_conv)
    have ret: "retrieveStreamIdsToDelete cfg p st = Inr (?ids, parentId s)"
      using f ok1 by (simp add: retrieveStreamIdsToDelete_def)
    have chk: "checkIfRootStreamAndLinkedEventsExist cfg p ?ids (parentId s) st = Inr True"
      using ok2 m linked by (simp add: checkIfRootStreamAndLinkedEventsExist_def)
    have "\<exists>st1. handleHistory cfg ?ids st = Inr st1"
      using ok3 by (simp add: handleHistory_def)
    then obtain st1 where hh: "handleHistory cfg ?ids st = Inr st1" by blast
    have keep: "e \<in> set (events st1)" "eventFiles st1 = eventFiles st" "errorLog st1 = errorLog st"
      using handleHistory_keeps_live[OF hh e live] by simp_all
    let ?xs = "events_find (\<lambda>e. streamIdsIn ?ids e \<and> attachments e \<noteq> None) (events st1)"
    let ?st2 = "foldl ?F st1 ?xs"
    have dewa: "deleteEventsWithAttachments cfg ?ids st1 = Inr ?st2"
      using ok4 by (simp add: deleteEventsWithAttachments_def)
    have sel_in: "e \<in> set ?xs" using keep(1) live att sel by (simp add: events_find_def)
    have run: "handleLinkedEvents cfg p ?ids (parentId s) True st
        = series [removeStreamdIdsFromAllEvents cfg ?ids, deleteEvents cfg ?ids] ?st2"
      using m hh dewa by (simp add: handleLinkedEvents_def)
    obtain err st' where h: "handleLinkedEvents cfg p ?ids (parentId s) True st = (err, st')"
      by (cases "handleLinkedEvents cfg p ?ids (parentId s) True st")
    have st': "eventFiles st' = eventFiles ?st2 \<and> errorLog st' = errorLog ?st2"
      using later_steps_keep_files[where cfg = cfg and ids = ?ids and s = ?st2] h
      unfolding run by simp
    have "deleteWithData cfg p st =
        (case err of Some e \<Rightarrow> (Inl e, st') | None \<Rightarrow> deleteStreams cfg p ?ids st')"
      using ret chk h by (simp add: deleteWithData_def split: option.splits)
    then have fin: "eventFiles (snd (deleteWithData cfg p st)) = eventFiles ?st2 \<and>
        errorLog (snd (deleteWithData cfg p st)) = errorLog ?st2"
      using st' deleteStreams_files[where cfg = cfg and p = p and ids = ?ids and s = st']
      by (simp split: option.splits)
    show ?thesis
    proof (cases "removeAllForEventFails cfg (event_id e)")
      case True
      then show ?thesis
        using removals_logged[where x = e and xs = ?xs and skip = "stillAttached ?ids"
            and cfg = cfg and s = st1] sel_in sel fin by simp
    next
      case False
      then show ?thesis
        using removals_removed[where x = e and xs = ?xs and skip = "stillAttached ?ids"
            and cfg = cfg and s = st1] sel_in sel fin by simp
    qed
  qed
  show ?thesis using iso inv by blast
qed

lemma attachment_removal_failure_is_only_logged_example:
  "findById (treeAB True) ''A/B'' = Some (streamAB True) \<and>
   attachments (mkEvent ''e3'' [''A/B''] None (Some [''photo''])) \<noteq> None \<and>
   set (streamIds (mkEvent ''e3'' [''A/B''] None (Some [''photo''])))
     \<subseteq> set (collectPluckFromRootItem (streamAB True)) \<and>
   removeAllForEventFails
     (mkSettings False ''keep-nothing''\<lparr>removeAllForEventFails := (\<lambda>i. i = ''e3'')\<rparr>)
     (event_id (mkEvent ''e3'' [''A/B''] None (Some [''photo'']))) \<and>
   ''e3'' \<in> set (errorLog (snd (deleteWithData
     (mkSettings False ''keep-nothing''\<lparr>removeAllForEventFails := (\<lambda>i. i = ''e3'')\<rparr>)
     \<lparr>params_id = ''A/B'', mergeEventsWithParent = Some False\<rparr>
     (mkStorage (treeAB True)
        [mkEvent ''e3'' [''A/B''] None (Some [''photo'']),
         mkEvent ''e4'' [''A/B''] None (Some [''scan''])]\<lparr>eventFiles := [''e3'', ''e4'']\<rparr>)))) \<and>
   deleteWithData
     (mkSettings False ''keep-nothing''\<lparr>removeAllForEventFails := (\<lambda>i. i = ''e3'')\<rparr>)
     \<lparr>params_id = ''A/B'', mergeEventsWithParent = Some False\<rparr>
     (mkStorage (treeAB True)
        [mkEvent ''e3'' [''A/B''] None (Some [''photo'']),
         mkEvent ''e4'' [''A/B''] None (Some [''scan''])]\<lparr>eventFiles := [''e3'', ''e4'']\<rparr>)
   = (Inr (ResultStreamDeletion ''A/B''),
      \<lparr>streams = [Stream ''A'' None None []], events = [], eventFiles = [''e3''],
       errorLog = [''e3''],
       notifications = [USERNAME_BASED_EVENTS_CHANGED, USERNAME_BASED_STREAMS_CHANGED]\<rparr>)"
proof -
  let ?cfg = "mkSettings False ''keep-nothing''\<lparr>removeAllForEventFails := (\<lambda>i. i = ''e3'')\<rparr>"
  let ?p = "\<lparr>params_id = ''A/B'', mergeEventsWithParent = Some False\<rparr>"
  let ?e = "mkEvent ''e3'' [''A/B''] None (Some [''photo''])"
  let ?st = "mkStorage (treeAB True)
        [?e, mkEvent ''e4'' [''A/B''] None (Some [''scan''])]\<lparr>eventFiles := [''e3'', ''e4'']\<rparr>"
  have f: "findById (treeAB True) ''A/B'' = Some (streamAB True)" by (simp add: example_defs)
  have h: "mergeEventsWithParent ?p = Some False \<and>
    findById (streams ?st) (params_id ?p) = Some (streamAB True) \<and>
    \<not> storageFails ?cfg RetrieveStreamIdsToDelete \<and>
    \<not> storageFails ?cfg CheckIfRootStreamAndLinkedEventsExist \<and>
    \<not> storageFails ?cfg HandleHistory \<and>
    \<not> storageFails ?cfg DeleteEventsWithAttachments \<and>
    ?e \<in> set (events ?st) \<and> headId ?e = None \<and> attachments ?e \<noteq> None \<and>
    streamIds ?e \<noteq> [] \<and> set (streamIds ?e) \<subseteq> set (collectPluckFromRootItem (streamAB True))"
    using f by (simp add: mkSettings_def mkStorage_def mkEvent_def streamAB_def)
  have fails: "removeAllForEventFails ?cfg (event_id ?e)" by (simp add: mkEvent_def)
  have "if removeAllForEventFails ?cfg (event_id ?e)
       then event_id ?e \<in> set (errorLog (snd (deleteWithData ?cfg ?p ?st)))
       else event_id ?e \<notin> set (eventFiles (snd (deleteWithData ?cfg ?p ?st)))"
    using attachment_removal_failure_is_only_logged[where cfg = ?cfg and p = ?p and st = ?st
        and s = "streamAB True" and e = ?e and g = "\<lambda>_. False"] h
    by blast
  then have "event_id ?e \<in> set (errorLog (snd (deleteWithData ?cfg ?p ?st)))"
    using fails by (simp only: if_True)
  then have logged: "''e3'' \<in> set (errorLog (snd (deleteWithData ?cfg ?p ?st)))"
    by (simp add: mkEvent_def)
  have run: "deleteWithData ?cfg ?p ?st
   = (Inr (ResultStreamDeletion ''A/B''),
      \<lparr>streams = [Stream ''A'' None None []], events = [], eventFiles = [''e3''],
       errorLog = [''e3''],
       notifications = [USERNAME_BASED_EVENTS_CHANGED, USERNAME_BASED_STREAMS_CHANGED]\<rparr>)"
    by (simp add: step_defs example_defs)
  show ?thesis using f h fails logged run by blast
qed

text \<open>
  C9. The removal is not called for every event that is deleted with attachments. Under
  \<open>keep-everything\<close>, \<open>deleteEventsWithAttachments\<close> passes over a live event that
  has a membership outside the closure (it is still attached to a stream that stays), and
  \<open>deleteEvents\<close> then deletes that event all the same, by the filter
  \<^verbatim>\<open>{streamIds: {$in: streamAndDescendantIds}}\<close>. Deleting \<open>A/B\<close> with
  \<^verbatim>\<open>mergeEventsWithParent\<close> false removes the event whose \<open>streamIds\<close> are
  \<open>A/B\<close> and \<open>A\<close>, while its files are still stored and nothing is logged: the
  removal was never called for it.
\<close>

theorem keep_everything_deletes_event_and_keeps_its_files:
  "attachments (mkEvent ''e1'' [''A/B'', ''A''] None (Some [''photo''])) \<noteq> None \<and>
   stillAttached (collectPluckFromRootItem (streamAB True))
     (mkEvent ''e1'' [''A/B'', ''A''] None (Some [''photo''])) \<and>
   deleteStream (mkSettings False ''keep-everything'') \<lparr>ctx_stream = streamAB True\<rparr>
     \<lparr>params_id = ''A/B'', mergeEventsWithParent = Some False\<rparr>
     (mkStorage (treeAB True) [mkEvent ''e1'' [''A/B'', ''A''] None (Some [''photo''])]
        \<lparr>eventFiles := [''e1'']\<rparr>)
   = (Inr (ResultStreamDeletion ''A/B''),
      \<lparr>streams = [Stream ''A'' None None []], events = [], eventFiles = [''e1''],
       errorLog = [],
       notifications = [USERNAME_BASED_EVENTS_CHANGED, USERNAME_BASED_STREAMS_CHANGED]\<rparr>)"
  by (simp add: deleteStream_def step_defs example_defs)

end
